theory Spec2Isabelle
  imports Complex_Main "HOL-Library.Monad_Syntax"
begin

section \<open>Numbers\<close>

text \<open>
  The solver of \<^verbatim>\<open>physics/solver/gs.go\<close> computes in Go's \<^verbatim>\<open>float32\<close>. Every
  definition of the solver below is polymorphic in the number type \<open>'f\<close> and asks of it
  only the operations the source uses (\<open>0\<close>, \<open>1\<close>, \<open>+\<close>, \<open>-\<close>, \<open>*\<close>, \<open>/\<close>, \<open>abs\<close>, \<open><\<close>),
  with no law assumed about them. A theorem stated for every such \<open>'f\<close> therefore holds
  whatever the arithmetic does (rounding, overflow, not-a-number).

  For the statements that do depend on the arithmetic, and for running the solver on
  concrete inputs, \<open>f32\<close> is a model of the IEEE values: the finite numbers, the two
  infinities and not-a-number. Its special values follow IEEE 754 (division by zero,
  \<open>\<infinity> - \<infinity>\<close>, \<open>0 * \<infinity>\<close>, comparisons with not-a-number are false). Finite results are
  exact: rounding, overflow of finite operands and the sign of zero are not modelled.
\<close>

datatype f32 = Finite real | PInf | NInf | NaN

fun f32_neg :: "f32 \<Rightarrow> f32" where
  "f32_neg (Finite x) = Finite (- x)"
| "f32_neg PInf = NInf"
| "f32_neg NInf = PInf"
| "f32_neg NaN = NaN"

fun f32_add :: "f32 \<Rightarrow> f32 \<Rightarrow> f32" where
  "f32_add (Finite x) (Finite y) = Finite (x + y)"
| "f32_add NaN _ = NaN"
| "f32_add _ NaN = NaN"
| "f32_add PInf NInf = NaN"
| "f32_add NInf PInf = NaN"
| "f32_add PInf _ = PInf"
| "f32_add _ PInf = PInf"
| "f32_add NInf _ = NInf"
| "f32_add _ NInf = NInf"

fun f32_sign :: "f32 \<Rightarrow> real" where
  "f32_sign (Finite x) = sgn x"
| "f32_sign PInf = 1"
| "f32_sign NInf = - 1"
| "f32_sign NaN = 0"

definition f32_inf :: "real \<Rightarrow> f32" where
  "f32_inf s = (if s = 0 then NaN else if 0 < s then PInf else NInf)"

fun f32_mul :: "f32 \<Rightarrow> f32 \<Rightarrow> f32" where
  "f32_mul (Finite x) (Finite y) = Finite (x * y)"
| "f32_mul NaN _ = NaN"
| "f32_mul _ NaN = NaN"
| "f32_mul a b = f32_inf (f32_sign a * f32_sign b)"

fun f32_div :: "f32 \<Rightarrow> f32 \<Rightarrow> f32" where
  "f32_div (Finite x) (Finite y) = (if y = 0 then f32_inf (sgn x) else Finite (x / y))"
| "f32_div NaN _ = NaN"
| "f32_div _ NaN = NaN"
| "f32_div (Finite x) _ = Finite 0"
| "f32_div a (Finite y) = f32_inf (f32_sign a * (if y < 0 then - 1 else 1))"
| "f32_div _ _ = NaN"

fun f32_abs :: "f32 \<Rightarrow> f32" where
  "f32_abs (Finite x) = Finite \<bar>x\<bar>"
| "f32_abs NaN = NaN"
| "f32_abs _ = PInf"

fun f32_less :: "f32 \<Rightarrow> f32 \<Rightarrow> bool" where
  "f32_less (Finite x) (Finite y) = (x < y)"
| "f32_less NaN _ = False"
| "f32_less _ NaN = False"
| "f32_less _ NInf = False"
| "f32_less PInf _ = False"
| "f32_less _ _ = True"

instantiation f32 :: "{zero,one,plus,minus,times,inverse,abs,ord}"
begin

definition zero_f32 :: f32 where "zero_f32 = Finite 0"
definition one_f32 :: f32 where "one_f32 = Finite 1"
definition plus_f32 :: "f32 \<Rightarrow> f32 \<Rightarrow> f32" where "plus_f32 = f32_add"
definition minus_f32 :: "f32 \<Rightarrow> f32 \<Rightarrow> f32" where "minus_f32 a b = f32_add a (f32_neg b)"
definition times_f32 :: "f32 \<Rightarrow> f32 \<Rightarrow> f32" where "times_f32 = f32_mul"
definition divide_f32 :: "f32 \<Rightarrow> f32 \<Rightarrow> f32" where "divide_f32 = f32_div"
definition inverse_f32 :: "f32 \<Rightarrow> f32" where "inverse_f32 a = f32_div (Finite 1) a"
definition abs_f32 :: "f32 \<Rightarrow> f32" where "abs_f32 = f32_abs"
definition less_f32 :: "f32 \<Rightarrow> f32 \<Rightarrow> bool" where "less_f32 = f32_less"
definition less_eq_f32 :: "f32 \<Rightarrow> f32 \<Rightarrow> bool" where
  "less_eq_f32 a b = (f32_less a b \<or> (a = b \<and> a \<noteq> NaN))"

instance ..

end


section \<open>Vectors, matrices and Jacobian elements\<close>

text \<open>\<^verbatim>\<open>math32.Vector3\<close> is a struct of three \<^verbatim>\<open>float32\<close>, \<^verbatim>\<open>math32.Matrix3\<close> an array of
  nine in column-major order.\<close>

record 'f Vector3 =
  X :: 'f
  Y :: 'f
  Z :: 'f

record 'f Matrix3 =
  m0 :: 'f
  m1 :: 'f
  m2 :: 'f
  m3 :: 'f
  m4 :: 'f
  m5 :: 'f
  m6 :: 'f
  m7 :: 'f
  m8 :: 'f

text \<open>Modelled from the spec: the methods of \<^verbatim>\<open>math32.Vector3\<close> that \<^verbatim>\<open>Solve\<close> calls
  (\<^verbatim>\<open>Add\<close>, \<^verbatim>\<open>MultiplyScalar\<close>, \<^verbatim>\<open>ApplyMatrix3\<close>, \<^verbatim>\<open>Dot\<close>) are in package \<^verbatim>\<open>math32\<close>, which is
  not among the sources. The spec's step 5f adds to a delta a Jacobian part times a
  scalar, the rotational part first "transformed by" the inverse inertia matrix; step 5b
  is a dot product. In the source each method works in place on its receiver, which in
  \<^verbatim>\<open>Solve\<close> is a local copy or an element of a Solution array.\<close>

definition Add :: "('f::plus) Vector3 \<Rightarrow> 'f Vector3 \<Rightarrow> 'f Vector3" where
  "Add v other = \<lparr>X = X v + X other, Y = Y v + Y other, Z = Z v + Z other\<rparr>"

definition MultiplyScalar :: "('f::times) Vector3 \<Rightarrow> 'f \<Rightarrow> 'f Vector3" where
  "MultiplyScalar v s = \<lparr>X = X v * s, Y = Y v * s, Z = Z v * s\<rparr>"

definition Dot :: "('f::{plus,times}) Vector3 \<Rightarrow> 'f Vector3 \<Rightarrow> 'f" where
  "Dot v other = X v * X other + Y v * Y other + Z v * Z other"

definition ApplyMatrix3 :: "('f::{plus,times}) Vector3 \<Rightarrow> 'f Matrix3 \<Rightarrow> 'f Vector3" where
  "ApplyMatrix3 v m =
     \<lparr>X = m0 m * X v + m3 m * Y v + m6 m * Z v,
      Y = m1 m * X v + m4 m * Y v + m7 m * Z v,
      Z = m2 m * X v + m5 m * Y v + m8 m * Z v\<rparr>"

text \<open>Modelled from the spec: the Jacobian element type is in package \<^verbatim>\<open>equation\<close>, which
  is not among the sources. By the spec (section 3) each element is "decomposable into
  a 3D spatial (linear) part and a 3D rotational part", handed out by value, and
  \<^verbatim>\<open>MultiplyVectors\<close> is the dot product of the 6-component row with a body's
  (velocity, angular velocity) pair (step 5b).\<close>

record 'f JacobianElement =
  Spatial :: "'f Vector3"
  Rotational :: "'f Vector3"

definition MultiplyVectors ::
  "('f::{plus,times}) JacobianElement \<Rightarrow> 'f Vector3 \<Rightarrow> 'f Vector3 \<Rightarrow> 'f" where
  "MultiplyVectors je spatial rotational =
     Dot (Spatial je) spatial + Dot (Rotational je) rotational"

section \<open>Bodies and equations\<close>

text \<open>Modelled from the spec: bodies and equations are interfaces whose implementations
  are not among the sources. \<^verbatim>\<open>Solve\<close> uses of a body its \<^verbatim>\<open>Index()\<close>, \<^verbatim>\<open>InvMassSolve()\<close>
  and \<^verbatim>\<open>InvInertiaWorldSolve()\<close>, and of an equation \<^verbatim>\<open>BodyA()\<close>, \<^verbatim>\<open>BodyB()\<close>,
  \<^verbatim>\<open>ComputeC()\<close>, \<^verbatim>\<open>ComputeB(h)\<close>, \<^verbatim>\<open>Eps()\<close>, \<^verbatim>\<open>MinForce()\<close>, \<^verbatim>\<open>MaxForce()\<close>, \<^verbatim>\<open>JeA()\<close>,
  \<^verbatim>\<open>JeB()\<close> and \<^verbatim>\<open>SetMultiplier(m)\<close>. By the spec (section 3) the getters supply
  per-step coefficients and \<open>multiplier\<close> is the one mutable output; so each getter is a
  field here, \<^verbatim>\<open>ComputeB\<close> a function of the timestep, and \<^verbatim>\<open>SetMultiplier\<close> a field
  update.\<close>

record 'f Body =
  Index :: int
  InvMassSolve :: 'f
  InvInertiaWorldSolve :: "'f Matrix3"

record 'f Equation =
  BodyA :: "'f Body"
  BodyB :: "'f Body"
  ComputeC :: 'f
  ComputeB :: "'f \<Rightarrow> 'f"
  Eps :: 'f
  MinForce :: 'f
  MaxForce :: 'f
  JeA :: "'f JacobianElement"
  JeB :: "'f JacobianElement"
  multiplier :: 'f

definition SetMultiplier :: "'f Equation \<Rightarrow> 'f \<Rightarrow> 'f Equation" where
  "SetMultiplier eq m = eq\<lparr>multiplier := m\<rparr>"

section \<open>Slices\<close>

text \<open>
  A Go slice is a window of \<open>len\<close> elements onto a backing array. \<^verbatim>\<open>s[0:0]\<close> keeps the
  array and sets the length to zero; \<^verbatim>\<open>append\<close> writes into the array while there is
  capacity and moves to a new array otherwise (the new capacity is the runtime's choice
  and this program cannot observe it: the model takes an exact fit). An index outside
  \<open>[0, len)\<close> panics: the read or write is \<open>None\<close>.
\<close>

record 'a slice =
  backing :: "'a list"
  len :: nat

definition reslice0 :: "'a slice \<Rightarrow> 'a slice" where
  "reslice0 s = s\<lparr>len := 0\<rparr>"

definition append_sl :: "'a slice \<Rightarrow> 'a \<Rightarrow> 'a slice" where
  "append_sl s x =
     (if len s < length (backing s)
      then \<lparr>backing = (backing s)[len s := x], len = Suc (len s)\<rparr>
      else \<lparr>backing = take (len s) (backing s) @ [x], len = Suc (len s)\<rparr>)"

definition index_sl :: "'a slice \<Rightarrow> int \<Rightarrow> 'a option" where
  "index_sl s i =
     (if 0 \<le> i \<and> i < int (len s) then Some (backing s ! nat i) else None)"

definition store_sl :: "'a slice \<Rightarrow> int \<Rightarrow> 'a \<Rightarrow> 'a slice option" where
  "store_sl s i x =
     (if 0 \<le> i \<and> i < int (len s) then Some (s\<lparr>backing := (backing s)[nat i := x]\<rparr>)
      else None)"

text \<open>The elements a slice shows: what the caller reads after \<^verbatim>\<open>Solve\<close>.\<close>

definition elems :: "'a slice \<Rightarrow> 'a list" where
  "elems s = take (len s) (backing s)"

text \<open>The equation list is only read: a list with a checked index.\<close>

definition index_list :: "'a list \<Rightarrow> int \<Rightarrow> 'a option" where
  "index_list xs i = (if 0 \<le> i \<and> i < int (length xs) then Some (xs ! nat i) else None)"

section \<open>The solver\<close>

text \<open>The struct \<^verbatim>\<open>GaussSeidel\<close> with its embedded \<^verbatim>\<open>Solver\<close> (the equation list) and
  \<^verbatim>\<open>Solution\<close> (the two delta arrays). Go's 64-bit \<^verbatim>\<open>int\<close> is modelled by \<open>int\<close>: the
  counters of \<^verbatim>\<open>Solve\<close> stay between 0 and the body count, the number of equations
  and \<open>maxIter + 1\<close>, which could wrap only when \<open>maxIter\<close> is the largest \<^verbatim>\<open>int\<close> and
  that many iterations have run.\<close>

record 'f GaussSeidel =
  equations :: "'f Equation list"
  VelocityDeltas :: "'f Vector3 slice"
  AngularVelocityDeltas :: "'f Vector3 slice"
  maxIter :: int
  tolerance :: 'f
  solveInvCs :: "'f slice"
  solveBs :: "'f slice"
  solveLambda :: "'f slice"

definition Reset :: "'f GaussSeidel \<Rightarrow> 'f GaussSeidel" where
  "Reset gs = gs\<lparr>VelocityDeltas := reslice0 (VelocityDeltas gs),
                 AngularVelocityDeltas := reslice0 (AngularVelocityDeltas gs),
                 solveInvCs := reslice0 (solveInvCs gs),
                 solveBs := reslice0 (solveBs gs),
                 solveLambda := reslice0 (solveLambda gs)\<rparr>"

text \<open>Lines 65-68, the loop \<^verbatim>\<open>for i := 0; i < nBodies; i++\<close> that appends a zero vector to
  each Solution array.\<close>

function resetDeltas :: "('f::zero) GaussSeidel \<Rightarrow> int \<Rightarrow> int \<Rightarrow> 'f GaussSeidel" where
  "resetDeltas gs i nBodies =
     (if i < nBodies
      then resetDeltas
             (gs\<lparr>VelocityDeltas := append_sl (VelocityDeltas gs) \<lparr>X = 0, Y = 0, Z = 0\<rparr>,
                 AngularVelocityDeltas :=
                   append_sl (AngularVelocityDeltas gs) \<lparr>X = 0, Y = 0, Z = 0\<rparr>\<rparr>)
             (i + 1) nBodies
      else gs)"
  by pat_completeness auto
termination
  by (relation "measure (\<lambda>(gs, i, nBodies). nat (nBodies - i))") auto

text \<open>Lines 71-76, the loop that computes \<open>1 / C\<close> and \<open>B(h)\<close> once for each equation and
  starts its \<open>lambda\<close> at zero.\<close>

function precompute ::
  "('f::{zero,one,inverse}) GaussSeidel \<Rightarrow> 'f \<Rightarrow> int \<Rightarrow> int \<Rightarrow> 'f GaussSeidel option" where
  "precompute gs h i nEquations =
     (if i < nEquations
      then (case index_list (equations gs) i of
              None \<Rightarrow> None
            | Some eq \<Rightarrow>
                precompute
                  (gs\<lparr>solveInvCs := append_sl (solveInvCs gs) (1 / ComputeC eq),
                      solveBs := append_sl (solveBs gs) (ComputeB eq h),
                      solveLambda := append_sl (solveLambda gs) 0\<rparr>)
                  h (i + 1) nEquations)
      else Some gs)"
  by pat_completeness auto
termination
  by (relation "measure (\<lambda>(gs, h, i, nEquations). nat (nEquations - i))") auto

text \<open>\<^verbatim>\<open>slice[i].Add(d)\<close>: the element is read, added to and written back in place.\<close>

definition addAt ::
  "('f::plus) Vector3 slice \<Rightarrow> int \<Rightarrow> 'f Vector3 \<Rightarrow> 'f Vector3 slice option" where
  "addAt s i d = do { v \<leftarrow> index_sl s i; store_sl s i (Add v d) }"

text \<open>Lines 88-127, the body of the loop over the equations: the update of equation \<open>j\<close>.
  It returns the solver and the running total \<^verbatim>\<open>deltaLambdaTot\<close>.\<close>

definition updateEquation ::
  "('f::{plus,minus,times,abs,ord}) GaussSeidel \<Rightarrow> int \<Rightarrow> 'f \<Rightarrow>
     ('f GaussSeidel \<times> 'f) option" where
  "updateEquation gs j deltaLambdaTot = do {
     eq \<leftarrow> index_list (equations gs) j;
     lambdaJ \<leftarrow> index_sl (solveLambda gs) j;
     let idxBodyA = Index (BodyA eq);
     let idxBodyB = Index (BodyB eq);
     vA \<leftarrow> index_sl (VelocityDeltas gs) idxBodyA;
     vB \<leftarrow> index_sl (VelocityDeltas gs) idxBodyB;
     wA \<leftarrow> index_sl (AngularVelocityDeltas gs) idxBodyA;
     wB \<leftarrow> index_sl (AngularVelocityDeltas gs) idxBodyB;
     let jeA = JeA eq;
     let jeB = JeB eq;
     let spatA = Spatial jeA;
     let spatB = Spatial jeB;
     let rotA = Rotational jeA;
     let rotB = Rotational jeB;
     let GWlambda = MultiplyVectors jeA vA wA + MultiplyVectors jeB vB wB;
     invC \<leftarrow> index_sl (solveInvCs gs) j;
     b \<leftarrow> index_sl (solveBs gs) j;
     let deltaLambda = invC * (b - GWlambda - Eps eq * lambdaJ);
     let deltaLambda =
       (if lambdaJ + deltaLambda < MinForce eq then MinForce eq - lambdaJ
        else if lambdaJ + deltaLambda > MaxForce eq then MaxForce eq - lambdaJ
        else deltaLambda);
     lam \<leftarrow> index_sl (solveLambda gs) j;
     solveLambda' \<leftarrow> store_sl (solveLambda gs) j (lam + deltaLambda);
     let deltaLambdaTot = deltaLambdaTot + abs deltaLambda;
     vd \<leftarrow> addAt (VelocityDeltas gs) idxBodyA
             (MultiplyScalar spatA (InvMassSolve (BodyA eq) * deltaLambda));
     vd \<leftarrow> addAt vd idxBodyB
             (MultiplyScalar spatB (InvMassSolve (BodyB eq) * deltaLambda));
     ad \<leftarrow> addAt (AngularVelocityDeltas gs) idxBodyA
             (MultiplyScalar (ApplyMatrix3 rotA (InvInertiaWorldSolve (BodyA eq)))
                deltaLambda);
     ad \<leftarrow> addAt ad idxBodyB
             (MultiplyScalar (ApplyMatrix3 rotB (InvInertiaWorldSolve (BodyB eq)))
                deltaLambda);
     Some (gs\<lparr>VelocityDeltas := vd, AngularVelocityDeltas := ad,
               solveLambda := solveLambda'\<rparr>, deltaLambdaTot)
   }"

text \<open>Lines 87-129, the loop \<^verbatim>\<open>for j := 0; j < nEquations; j++\<close>: one pass over the
  equations, in list order.\<close>

function equationLoop ::
  "('f::{plus,minus,times,abs,ord}) GaussSeidel \<Rightarrow> int \<Rightarrow> int \<Rightarrow> 'f \<Rightarrow>
     ('f GaussSeidel \<times> 'f) option" where
  "equationLoop gs j nEquations deltaLambdaTot =
     (if j < nEquations
      then (case updateEquation gs j deltaLambdaTot of
              None \<Rightarrow> None
            | Some (gs', deltaLambdaTot') \<Rightarrow>
                equationLoop gs' (j + 1) nEquations deltaLambdaTot')
      else Some (gs, deltaLambdaTot))"
  by pat_completeness auto
termination
  by (relation "measure (\<lambda>(gs, j, nEquations, tot). nat (nEquations - j))") auto

text \<open>Lines 82-135, the loop \<^verbatim>\<open>for iter = 0; iter < gs.maxIter; iter++\<close> with its
  \<^verbatim>\<open>break\<close>. It returns the solver and the value of \<^verbatim>\<open>iter\<close> when the loop is left.
  The bound \<open>limit\<close> is \<^verbatim>\<open>gs.maxIter\<close>, which no statement of the loop changes.\<close>

function iterate ::
  "('f::{zero,plus,minus,times,abs,ord}) GaussSeidel \<Rightarrow> int \<Rightarrow> int \<Rightarrow> 'f \<Rightarrow> int \<Rightarrow>
     ('f GaussSeidel \<times> int) option" where
  "iterate gs iter limit tolSquared nEquations =
     (if iter < limit
      then (case equationLoop gs 0 nEquations 0 of
              None \<Rightarrow> None
            | Some (gs', deltaLambdaTot) \<Rightarrow>
                if deltaLambdaTot * deltaLambdaTot < tolSquared then Some (gs', iter)
                else iterate gs' (iter + 1) limit tolSquared nEquations)
      else Some (gs, iter))"
  by pat_completeness auto
termination
  by (relation "measure (\<lambda>(gs, iter, limit, tol, n). nat (limit - iter))") auto

text \<open>Lines 138-140, \<^verbatim>\<open>for i := range gs.equations\<close>: the multiplier of each equation is
  set to \<open>lambda[i] / h\<close>.\<close>

function setMultipliers ::
  "('f::inverse) GaussSeidel \<Rightarrow> 'f \<Rightarrow> int \<Rightarrow> 'f GaussSeidel option" where
  "setMultipliers gs h i =
     (if i < int (length (equations gs))
      then (case index_list (equations gs) i of
              None \<Rightarrow> None
            | Some eq \<Rightarrow>
                (case index_sl (solveLambda gs) i of
                   None \<Rightarrow> None
                 | Some l \<Rightarrow>
                     setMultipliers
                       (gs\<lparr>equations := (equations gs)[nat i := SetMultiplier eq (l / h)]\<rparr>)
                       h (i + 1)))
      else Some gs)"
  by pat_completeness auto
termination
  by (relation "measure (\<lambda>(gs, h, i). nat (int (length (equations gs)) - i))") auto

text \<open>\<^verbatim>\<open>Solve\<close>. The argument \<open>h\<close> is the source's \<^verbatim>\<open>float32(frameDelta.Seconds())\<close>, the
  timestep in seconds. The result is \<open>None\<close> when the source panics on an index, and
  otherwise the returned \<^verbatim>\<open>iter\<close> with the solver as the call leaves it.\<close>

definition Solve ::
  "('f::{zero,one,plus,minus,times,inverse,abs,ord}) GaussSeidel \<Rightarrow> 'f \<Rightarrow> int \<Rightarrow>
     (int \<times> 'f GaussSeidel) option" where
  "Solve gs0 h nBodies =
     (let gs = Reset gs0;
          iter = 0;
          nEquations = int (length (equations gs));
          gs = resetDeltas gs 0 nBodies
      in case precompute gs h 0 nEquations of
           None \<Rightarrow> None
         | Some gs \<Rightarrow>
             if nEquations > 0
             then (let tolSquared = tolerance gs * tolerance gs
                   in case iterate gs 0 (maxIter gs) tolSquared nEquations of
                        None \<Rightarrow> None
                      | Some (gs, iter) \<Rightarrow>
                          (case setMultipliers gs h 0 of
                             None \<Rightarrow> None
                           | Some gs \<Rightarrow> Some (iter + 1, gs)))
             else Some (iter, gs))"

section \<open>The algorithm as the specification words it\<close>

text \<open>
  The specification (section 4.1, steps 4 and 5) describes the solver on three sequences:
  the accumulated impulses \<open>lambda\<close> and the two Solution arrays. The definitions of
  this section follow its sentences; the theorems below relate them to \<open>Solve\<close>.
\<close>

record 'f work =
  lam :: "'f list"
  vel :: "'f Vector3 list"
  ang :: "'f Vector3 list"

definition zero3 :: "('f::zero) Vector3" where
  "zero3 = \<lparr>X = 0, Y = 0, Z = 0\<rparr>"

definition zeroM :: "('f::zero) Matrix3" where
  "zeroM = \<lparr>m0 = 0, m1 = 0, m2 = 0, m3 = 0, m4 = 0, m5 = 0, m6 = 0, m7 = 0, m8 = 0\<rparr>"

text \<open>Step 4: \<open>invC[j] = 1/C_j\<close>, \<open>b[j] = B_j(h)\<close>, \<open>lambda[j] = 0\<close>; step 2: Solution
  arrays of length \<open>bodyCount\<close>, zero-initialised.\<close>

definition spec_invC :: "('f::{one,inverse}) Equation list \<Rightarrow> 'f list" where
  "spec_invC eqs = map (\<lambda>e. 1 / ComputeC e) eqs"

definition spec_b :: "'f Equation list \<Rightarrow> 'f \<Rightarrow> 'f list" where
  "spec_b eqs h = map (\<lambda>e. ComputeB e h) eqs"

definition work0 :: "nat \<Rightarrow> int \<Rightarrow> ('f::zero) work" where
  "work0 m nBodies =
     \<lparr>lam = replicate m 0, vel = replicate (nat nBodies) zero3,
      ang = replicate (nat nBodies) zero3\<rparr>"

text \<open>Step 5b: \<open>GWlambda = JeA \<cdot> (velA, angVelA) + JeB \<cdot> (velB, angVelB)\<close>, on the current
  deltas of the two bodies.\<close>

definition spec_GWlambda :: "('f::{plus,times}) Equation \<Rightarrow> 'f work \<Rightarrow> 'f" where
  "spec_GWlambda eq w =
     (let a = nat (Index (BodyA eq)); b = nat (Index (BodyB eq))
      in MultiplyVectors (JeA eq) (vel w ! a) (ang w ! a) +
         MultiplyVectors (JeB eq) (vel w ! b) (ang w ! b))"

text \<open>Step 5d: with \<open>target = lambda[j] + deltaLambda\<close>, below \<open>minForce\<close> the update
  becomes \<open>minForce - lambda[j]\<close>, else above \<open>maxForce\<close> it becomes
  \<open>maxForce - lambda[j]\<close>.\<close>

definition spec_clamp :: "('f::{plus,minus,ord}) Equation \<Rightarrow> 'f \<Rightarrow> 'f \<Rightarrow> 'f" where
  "spec_clamp eq lambda deltaLambda =
     (let target = lambda + deltaLambda
      in if target < MinForce eq then MinForce eq - lambda
         else if target > MaxForce eq then MaxForce eq - lambda
         else deltaLambda)"

text \<open>Steps 5c and 5d: \<open>deltaLambda = invC[j] * (b[j] - GWlambda - eps_j * lambda[j])\<close>,
  clamped.\<close>

definition spec_deltaLambda ::
  "('f::{plus,minus,times,ord}) Equation \<Rightarrow> 'f \<Rightarrow> 'f \<Rightarrow> 'f work \<Rightarrow> 'f \<Rightarrow> 'f" where
  "spec_deltaLambda eq invC b w lambda =
     spec_clamp eq lambda (invC * (b - spec_GWlambda eq w - Eps eq * lambda))"

text \<open>Step 5f: the impulse is applied to both bodies, body A first. The specification
  writes the products without brackets; they are bracketed here as the source computes
  them.\<close>

definition spec_apply :: "('f::{plus,times}) Equation \<Rightarrow> 'f \<Rightarrow> 'f work \<Rightarrow> 'f work" where
  "spec_apply eq deltaLambda w =
     (let a = nat (Index (BodyA eq)); b = nat (Index (BodyB eq));
          vel1 = (vel w)[a := Add (vel w ! a)
                    (MultiplyScalar (Spatial (JeA eq)) (InvMassSolve (BodyA eq) * deltaLambda))];
          vel2 = vel1[b := Add (vel1 ! b)
                    (MultiplyScalar (Spatial (JeB eq)) (InvMassSolve (BodyB eq) * deltaLambda))];
          ang1 = (ang w)[a := Add (ang w ! a)
                    (MultiplyScalar (ApplyMatrix3 (Rotational (JeA eq))
                       (InvInertiaWorldSolve (BodyA eq))) deltaLambda)];
          ang2 = ang1[b := Add (ang1 ! b)
                    (MultiplyScalar (ApplyMatrix3 (Rotational (JeB eq))
                       (InvInertiaWorldSolve (BodyB eq))) deltaLambda)]
      in w\<lparr>vel := vel2, ang := ang2\<rparr>)"

text \<open>Steps 5a to 5f for equation \<open>j\<close>: the update of \<open>lambda[j]\<close>, of \<open>totalDelta\<close> and
  of the Solution arrays.\<close>

definition spec_step ::
  "('f::{plus,minus,times,abs,ord}) Equation \<Rightarrow> 'f \<Rightarrow> 'f \<Rightarrow> nat \<Rightarrow>
     'f work \<times> 'f \<Rightarrow> 'f work \<times> 'f" where
  "spec_step eq invC b j = (\<lambda>(w, totalDelta).
     let deltaLambda = spec_deltaLambda eq invC b w (lam w ! j);
         w = w\<lparr>lam := (lam w)[j := lam w ! j + deltaLambda]\<rparr>
     in (spec_apply eq deltaLambda w, totalDelta + abs deltaLambda))"

definition spec_update ::
  "('f::{plus,minus,times,abs,ord}) Equation list \<Rightarrow> 'f list \<Rightarrow> 'f list \<Rightarrow> nat \<Rightarrow>
     'f work \<times> 'f \<Rightarrow> 'f work \<times> 'f" where
  "spec_update eqs invC b j = spec_step (eqs ! j) (invC ! j) (b ! j) j"

text \<open>One iteration: \<open>totalDelta\<close> starts at zero and the equations are taken in the fixed
  list order, each on the state its predecessors left.\<close>

definition spec_pass ::
  "('f::{zero,plus,minus,times,abs,ord}) Equation list \<Rightarrow> 'f list \<Rightarrow> 'f list \<Rightarrow> 'f work \<Rightarrow>
     'f work \<times> 'f" where
  "spec_pass eqs invC b w = fold (spec_update eqs invC b) [0..<length eqs] (w, 0)"

section \<open>The source's loops on the three sequences\<close>

text \<open>
  The iteration loop of the source, with its convergence test and the counter \<^verbatim>\<open>iter\<close>,
  over \<open>spec_pass\<close>: \<open>k\<close> is the number of iterations still allowed, and the result
  carries the value of \<^verbatim>\<open>iter\<close> when the loop is left. \<open>work_solve\<close> is \<^verbatim>\<open>Solve\<close> on
  the three sequences, with the value it returns.
\<close>

fun work_iterate ::
  "('f::{zero,plus,minus,times,abs,ord}) Equation list \<Rightarrow> 'f list \<Rightarrow> 'f list \<Rightarrow> 'f \<Rightarrow>
     nat \<Rightarrow> int \<Rightarrow> 'f work \<Rightarrow> 'f work \<times> int" where
  "work_iterate eqs invC b tolSquared 0 iter w = (w, iter)"
| "work_iterate eqs invC b tolSquared (Suc k) iter w =
     (case spec_pass eqs invC b w of
        (w', totalDelta) \<Rightarrow>
          if totalDelta * totalDelta < tolSquared then (w', iter)
          else work_iterate eqs invC b tolSquared k (iter + 1) w')"

definition work_solve ::
  "('f::{zero,one,plus,minus,times,inverse,abs,ord}) Equation list \<Rightarrow> int \<Rightarrow> 'f \<Rightarrow> 'f \<Rightarrow> int \<Rightarrow>
     'f work \<times> int" where
  "work_solve eqs limit tol h nBodies =
     (if eqs = [] then (work0 0 nBodies, 0)
      else case work_iterate eqs (spec_invC eqs) (spec_b eqs h) (tol * tol) (nat limit) 0
                  (work0 (length eqs) nBodies) of
             (w, iter) \<Rightarrow> (w, iter + 1))"

text \<open>The three sequences after \<open>i\<close> iterations, and whether the iteration of index
  \<open>i\<close> passes the convergence check \<open>totalDelta * totalDelta < tolerance * tolerance\<close>.\<close>

definition after_passes ::
  "('f::{zero,plus,minus,times,abs,ord}) Equation list \<Rightarrow> 'f list \<Rightarrow> 'f list \<Rightarrow> nat \<Rightarrow>
     'f work \<Rightarrow> 'f work" where
  "after_passes eqs invC b i w = ((\<lambda>w. fst (spec_pass eqs invC b w)) ^^ i) w"

definition converges_at ::
  "('f::{zero,plus,minus,times,abs,ord}) Equation list \<Rightarrow> 'f list \<Rightarrow> 'f list \<Rightarrow> 'f \<Rightarrow>
     'f work \<Rightarrow> nat \<Rightarrow> bool" where
  "converges_at eqs invC b tolSquared w i =
     (let totalDelta = snd (spec_pass eqs invC b (after_passes eqs invC b i w))
      in totalDelta * totalDelta < tolSquared)"

section \<open>Solver states and what a caller observes\<close>

text \<open>The three sequences of a solver: the elements its slices show.\<close>

definition work_of :: "'f GaussSeidel \<Rightarrow> 'f work" where
  "work_of gs = \<lparr>lam = elems (solveLambda gs), vel = elems (VelocityDeltas gs),
                 ang = elems (AngularVelocityDeltas gs)\<rparr>"

text \<open>A slice is well formed when its length is within its backing array, as every Go
  slice is. \<open>shape n m\<close> holds of the solver inside the loops of \<^verbatim>\<open>Solve\<close>: Solution
  arrays of length \<open>n\<close>, \<open>m\<close> equations, and working buffers of length \<open>m\<close>.\<close>

definition wf_slice :: "'a slice \<Rightarrow> bool" where
  "wf_slice s = (len s \<le> length (backing s))"

definition shape :: "nat \<Rightarrow> nat \<Rightarrow> 'f GaussSeidel \<Rightarrow> bool" where
  "shape n m gs \<longleftrightarrow>
     wf_slice (VelocityDeltas gs) \<and> len (VelocityDeltas gs) = n \<and>
     wf_slice (AngularVelocityDeltas gs) \<and> len (AngularVelocityDeltas gs) = n \<and>
     wf_slice (solveInvCs gs) \<and> len (solveInvCs gs) = m \<and>
     wf_slice (solveBs gs) \<and> len (solveBs gs) = m \<and>
     wf_slice (solveLambda gs) \<and> len (solveLambda gs) = m \<and>
     length (equations gs) = m"

text \<open>The specification's invariant on an equation (section 3): both body indices lie in
  \<open>[0, nBodies)\<close>.\<close>

definition in_range :: "nat \<Rightarrow> 'f Equation \<Rightarrow> bool" where
  "in_range n eq \<longleftrightarrow>
     0 \<le> Index (BodyA eq) \<and> Index (BodyA eq) < int n \<and>
     0 \<le> Index (BodyB eq) \<and> Index (BodyB eq) < int n"

definition all_in_range :: "nat \<Rightarrow> 'f Equation list \<Rightarrow> bool" where
  "all_in_range n eqs \<longleftrightarrow> (\<forall>e \<in> set eqs. in_range n e)"

text \<open>What the update of one equation leaves unchanged.\<close>

definition frame :: "'f GaussSeidel \<Rightarrow> 'f GaussSeidel \<Rightarrow> bool" where
  "frame gs gs' \<longleftrightarrow>
     equations gs' = equations gs \<and> maxIter gs' = maxIter gs \<and>
     tolerance gs' = tolerance gs \<and> solveInvCs gs' = solveInvCs gs \<and>
     solveBs gs' = solveBs gs"

text \<open>The solver and the running total after the update of equation \<open>j\<close>, when no index
  is out of range.\<close>

definition stepResult ::
  "('f::{plus,minus,times,abs,ord}) GaussSeidel \<Rightarrow> nat \<Rightarrow> 'f \<Rightarrow> 'f GaussSeidel \<times> 'f" where
  "stepResult gs j tot =
     (let eq = equations gs ! j;
          w = work_of gs;
          dl = spec_deltaLambda eq (elems (solveInvCs gs) ! j) (elems (solveBs gs) ! j) w
                 (lam w ! j);
          a = nat (Index (BodyA eq)); b = nat (Index (BodyB eq));
          vd = VelocityDeltas gs;
          vd1 = vd\<lparr>backing := (backing vd)[a := Add (elems vd ! a)
                  (MultiplyScalar (Spatial (JeA eq)) (InvMassSolve (BodyA eq) * dl))]\<rparr>;
          vd2 = vd1\<lparr>backing := (backing vd1)[b := Add (elems vd1 ! b)
                  (MultiplyScalar (Spatial (JeB eq)) (InvMassSolve (BodyB eq) * dl))]\<rparr>;
          ad = AngularVelocityDeltas gs;
          ad1 = ad\<lparr>backing := (backing ad)[a := Add (elems ad ! a)
                  (MultiplyScalar (ApplyMatrix3 (Rotational (JeA eq))
                     (InvInertiaWorldSolve (BodyA eq))) dl)]\<rparr>;
          ad2 = ad1\<lparr>backing := (backing ad1)[b := Add (elems ad1 ! b)
                  (MultiplyScalar (ApplyMatrix3 (Rotational (JeB eq))
                     (InvInertiaWorldSolve (BodyB eq))) dl)]\<rparr>;
          sl = solveLambda gs
      in (gs\<lparr>VelocityDeltas := vd2, AngularVelocityDeltas := ad2,
              solveLambda := sl\<lparr>backing := (backing sl)[j := lam w ! j + dl]\<rparr>\<rparr>,
          tot + abs dl))"

text \<open>Everything \<^verbatim>\<open>Solve\<close> reads of an equation: all of it but the multiplier.\<close>

definition coeffs ::
  "'f Equation \<Rightarrow> 'f Body \<times> 'f Body \<times> 'f \<times> ('f \<Rightarrow> 'f) \<times> 'f \<times> 'f \<times> 'f \<times>
     'f JacobianElement \<times> 'f JacobianElement" where
  "coeffs eq =
     (BodyA eq, BodyB eq, ComputeC eq, ComputeB eq, Eps eq, MinForce eq, MaxForce eq,
      JeA eq, JeB eq)"

text \<open>The value a call returns and the impulses it resolved, \<open>None\<close> when it panics.\<close>

definition returned :: "(int \<times> 'f GaussSeidel) option \<Rightarrow> int option" where
  "returned res = map_option fst res"

definition resolved_lambda :: "(int \<times> 'f GaussSeidel) option \<Rightarrow> 'f list option" where
  "resolved_lambda res = map_option (elems \<circ> solveLambda \<circ> snd) res"

section \<open>Box constraints and fixed bodies\<close>






section \<open>Example solvers\<close>

text \<open>
  \<^verbatim>\<open>NewGaussSeidel\<close> (lines 29-43): ten iterations, tolerance \<open>1e-7\<close>, empty slices; the
  equation list starts empty. The examples use numbers that \<^verbatim>\<open>float32\<close> represents and
  computes exactly; the tolerance is only ever compared with the squares of 0, 1 and
  not-a-number.
\<close>

definition empty_slice :: "'a slice" where
  "empty_slice = \<lparr>backing = [], len = 0\<rparr>"

definition NewGaussSeidel :: "f32 GaussSeidel" where
  "NewGaussSeidel =
     \<lparr>equations = [], VelocityDeltas = empty_slice, AngularVelocityDeltas = empty_slice,
      maxIter = 10, tolerance = Finite (1 / 10000000),
      solveInvCs = empty_slice, solveBs = empty_slice, solveLambda = empty_slice\<rparr>"

definition identityM :: "f32 Matrix3" where
  "identityM = \<lparr>m0 = 1, m1 = 0, m2 = 0, m3 = 0, m4 = 1, m5 = 0, m6 = 0, m7 = 0, m8 = 1\<rparr>"

definition world_body :: "f32 Body" where
  "world_body = \<lparr>Index = 0, InvMassSolve = 0, InvInertiaWorldSolve = zeroM\<rparr>"

definition free_body :: "f32 Body" where
  "free_body = \<lparr>Index = 1, InvMassSolve = 1, InvInertiaWorldSolve = identityM\<rparr>"

definition axis_x :: "f32 Vector3" where
  "axis_x = \<lparr>X = 1, Y = 0, Z = 0\<rparr>"

text \<open>A unilateral constraint between the fixed world body and a free body of unit mass.
  The first iteration resolves it with impulse 1, the second changes nothing and
  converges: \<^verbatim>\<open>Solve\<close> returns 2.\<close>

definition contact_eq :: "f32 Equation" where
  "contact_eq =
     \<lparr>BodyA = world_body, BodyB = free_body, ComputeC = 1, ComputeB = (\<lambda>h. 1),
      Eps = 0, MinForce = 0, MaxForce = PInf,
      JeA = \<lparr>Spatial = axis_x, Rotational = zero3\<rparr>,
      JeB = \<lparr>Spatial = axis_x, Rotational = zero3\<rparr>, multiplier = 0\<rparr>"

definition contact_solver :: "f32 GaussSeidel" where
  "contact_solver = NewGaussSeidel\<lparr>equations := [contact_eq]\<rparr>"

text \<open>The same solver as an earlier call with three bodies and two equations left it.\<close>

definition used_solver :: "f32 GaussSeidel" where
  "used_solver =
     contact_solver
       \<lparr>VelocityDeltas := \<lparr>backing = [axis_x, axis_x, axis_x], len = 3\<rparr>,
        solveLambda := \<lparr>backing = [Finite 7, Finite 8], len = 2\<rparr>\<rparr>"

text \<open>The solver inside the loops, before the first update.\<close>

definition loop_solver :: "f32 GaussSeidel" where
  "loop_solver =
     contact_solver
       \<lparr>VelocityDeltas := \<lparr>backing = [zero3, zero3], len = 2\<rparr>,
        AngularVelocityDeltas := \<lparr>backing = [zero3, zero3], len = 2\<rparr>,
        solveInvCs := \<lparr>backing = [1], len = 1\<rparr>,
        solveBs := \<lparr>backing = [1], len = 1\<rparr>,
        solveLambda := \<lparr>backing = [0], len = 1\<rparr>\<rparr>"

text \<open>An equation whose Jacobians are zero: every iteration adds 1 to its impulse, the
  total change of an iteration is always 1, and no iteration converges.\<close>

definition push_eq :: "f32 Equation" where
  "push_eq = contact_eq\<lparr>JeA := \<lparr>Spatial = zero3, Rotational = zero3\<rparr>,
                         JeB := \<lparr>Spatial = zero3, Rotational = zero3\<rparr>\<rparr>"

definition push_solver :: "f32 GaussSeidel" where
  "push_solver = NewGaussSeidel\<lparr>equations := [push_eq], maxIter := 3\<rparr>"



section \<open>Properties of the definitions\<close>

text \<open>The recursion equations of the loops are applied one step at a time.\<close>

declare resetDeltas.simps [simp del] precompute.simps [simp del] equationLoop.simps [simp del]
  iterate.simps [simp del] setMultipliers.simps [simp del]

lemmas f32_arith =
  zero_f32_def one_f32_def plus_f32_def minus_f32_def times_f32_def divide_f32_def
  abs_f32_def less_f32_def less_eq_f32_def f32_inf_def

subsection \<open>Slices\<close>

lemma wf_reslice0 [simp]: "wf_slice (reslice0 s)"
  by (simp add: wf_slice_def reslice0_def)

lemma elems_reslice0 [simp]: "elems (reslice0 s) = []"
  by (simp add: elems_def reslice0_def)

lemma len_reslice0 [simp]: "len (reslice0 s) = 0"
  by (simp add: reslice0_def)

lemma wf_append_sl [simp]: "wf_slice s \<Longrightarrow> wf_slice (append_sl s x)"
  by (auto simp: wf_slice_def append_sl_def)

lemma len_append_sl [simp]: "len (append_sl s x) = Suc (len s)"
  by (simp add: append_sl_def)

lemma elems_append_sl [simp]: "wf_slice s \<Longrightarrow> elems (append_sl s x) = elems s @ [x]"
  by (auto simp: wf_slice_def append_sl_def elems_def take_Suc_conv_app_nth)

lemma length_elems [simp]: "wf_slice s \<Longrightarrow> length (elems s) = len s"
  by (simp add: wf_slice_def elems_def)

lemma index_sl_Some:
  "wf_slice s \<Longrightarrow> index_sl s i = Some x \<longleftrightarrow> 0 \<le> i \<and> i < int (len s) \<and> x = elems s ! nat i"
  by (auto simp: index_sl_def elems_def wf_slice_def)

lemma elems_store [simp]:
  "elems (s\<lparr>backing := (backing s)[k := x]\<rparr>) = (elems s)[k := x]"
  by (simp add: elems_def take_update_swap)

lemma wf_store [simp]: "wf_slice (s\<lparr>backing := (backing s)[k := x]\<rparr>) = wf_slice s"
  by (simp add: wf_slice_def)


subsection \<open>The update of one equation\<close>

lemma index_sl_eq:
  "wf_slice s \<Longrightarrow> 0 \<le> i \<Longrightarrow> i < int (len s) \<Longrightarrow> index_sl s i = Some (elems s ! nat i)"
  by (simp add: index_sl_Some)

lemma store_sl_eq:
  "0 \<le> i \<Longrightarrow> i < int (len s) \<Longrightarrow>
   store_sl s i x = Some (s\<lparr>backing := (backing s)[nat i := x]\<rparr>)"
  by (simp add: store_sl_def)

lemma addAt_eq:
  "wf_slice s \<Longrightarrow> 0 \<le> i \<Longrightarrow> i < int (len s) \<Longrightarrow>
   addAt s i d = Some (s\<lparr>backing := (backing s)[nat i := Add (elems s ! nat i) d]\<rparr>)"
  by (simp add: addAt_def index_sl_eq store_sl_eq)

lemma index_list_eq:
  "0 \<le> i \<Longrightarrow> i < int (length xs) \<Longrightarrow> index_list xs i = Some (xs ! nat i)"
  by (simp add: index_list_def)

lemma updateEquation_eq:
  assumes "shape n m gs" "0 \<le> j" "j < int m" "in_range n (equations gs ! nat j)"
  shows "updateEquation gs j tot = Some (stepResult gs (nat j) tot)"
proof -
  let ?eq = "equations gs ! nat j"
  have eq: "index_list (equations gs) j = Some ?eq"
    using assms by (simp add: index_list_eq shape_def)
  have l: "index_sl (solveLambda gs) j = Some (elems (solveLambda gs) ! nat j)"
    and c: "index_sl (solveInvCs gs) j = Some (elems (solveInvCs gs) ! nat j)"
    and b: "index_sl (solveBs gs) j = Some (elems (solveBs gs) ! nat j)"
    using assms by (simp_all add: index_sl_eq shape_def)
  have ra: "0 \<le> Index (BodyA ?eq)" "Index (BodyA ?eq) < int n"
    and rb: "0 \<le> Index (BodyB ?eq)" "Index (BodyB ?eq) < int n"
    using assms(4) by (simp_all add: in_range_def)
  have wf: "wf_slice (VelocityDeltas gs)" "len (VelocityDeltas gs) = n"
    "wf_slice (AngularVelocityDeltas gs)" "len (AngularVelocityDeltas gs) = n"
    "len (solveLambda gs) = m"
    using assms(1) by (simp_all add: shape_def)
  have va: "index_sl (VelocityDeltas gs) (Index (BodyA ?eq)) =
              Some (elems (VelocityDeltas gs) ! nat (Index (BodyA ?eq)))"
    and vb: "index_sl (VelocityDeltas gs) (Index (BodyB ?eq)) =
              Some (elems (VelocityDeltas gs) ! nat (Index (BodyB ?eq)))"
    and wa: "index_sl (AngularVelocityDeltas gs) (Index (BodyA ?eq)) =
              Some (elems (AngularVelocityDeltas gs) ! nat (Index (BodyA ?eq)))"
    and wb: "index_sl (AngularVelocityDeltas gs) (Index (BodyB ?eq)) =
              Some (elems (AngularVelocityDeltas gs) ! nat (Index (BodyB ?eq)))"
    using ra rb wf by (simp_all add: index_sl_eq)
  have st: "\<And>x. store_sl (solveLambda gs) j x =
              Some ((solveLambda gs)\<lparr>backing := (backing (solveLambda gs))[nat j := x]\<rparr>)"
    using assms(2,3) wf by (simp add: store_sl_eq)
  have a1: "\<And>d. addAt (VelocityDeltas gs) (Index (BodyA ?eq)) d =
      Some ((VelocityDeltas gs)\<lparr>backing := (backing (VelocityDeltas gs))
        [nat (Index (BodyA ?eq)) := Add (elems (VelocityDeltas gs) ! nat (Index (BodyA ?eq))) d]\<rparr>)"
    using ra wf by (simp add: addAt_eq)
  have a2: "\<And>d. addAt (AngularVelocityDeltas gs) (Index (BodyA ?eq)) d =
      Some ((AngularVelocityDeltas gs)\<lparr>backing := (backing (AngularVelocityDeltas gs))
        [nat (Index (BodyA ?eq)) := Add (elems (AngularVelocityDeltas gs) ! nat (Index (BodyA ?eq))) d]\<rparr>)"
    using ra wf by (simp add: addAt_eq)
  have b1: "\<And>s d. wf_slice s \<Longrightarrow> len s = n \<Longrightarrow> addAt s (Index (BodyB ?eq)) d =
      Some (s\<lparr>backing := (backing s)[nat (Index (BodyB ?eq)) := Add (elems s ! nat (Index (BodyB ?eq))) d]\<rparr>)"
    using rb by (simp add: addAt_eq)
  show ?thesis
    unfolding updateEquation_def stepResult_def
    by (simp add: eq l c b va vb wa wb st a1 a2 b1 wf Let_def work_of_def
        spec_deltaLambda_def spec_clamp_def spec_GWlambda_def
        split del: if_split cong: if_cong)
qed

lemma updateEquation_out_of_range:
  assumes "shape n m gs" "0 \<le> j" "j < int m" "\<not> in_range n (equations gs ! nat j)"
  shows "updateEquation gs j tot = None"
proof -
  let ?eq = "equations gs ! nat j"
  have eq: "index_list (equations gs) j = Some ?eq"
    using assms by (simp add: index_list_eq shape_def)
  have l: "index_sl (solveLambda gs) j = Some (elems (solveLambda gs) ! nat j)"
    using assms by (simp add: index_sl_eq shape_def)
  have len: "len (VelocityDeltas gs) = n"
    using assms(1) by (simp add: shape_def)
  show ?thesis
  proof (cases "0 \<le> Index (BodyA ?eq) \<and> Index (BodyA ?eq) < int n")
    case False
    then have "index_sl (VelocityDeltas gs) (Index (BodyA ?eq)) = None"
      using len by (simp add: index_sl_def)
    then show ?thesis
      unfolding updateEquation_def by (simp add: eq l Let_def)
  next
    case True
    with assms(4) have "index_sl (VelocityDeltas gs) (Index (BodyB ?eq)) = None"
      using len by (auto simp: index_sl_def in_range_def)
    then show ?thesis
      unfolding updateEquation_def
      by (cases "index_sl (VelocityDeltas gs) (Index (BodyA ?eq))") (simp_all add: eq l Let_def)
  qed
qed

lemma frame_refl [simp]: "frame gs gs"
  by (simp add: frame_def)

lemma frame_trans: "frame gs gs' \<Longrightarrow> frame gs' gs'' \<Longrightarrow> frame gs gs''"
  by (simp add: frame_def)

lemma stepResult_shape: "shape n m gs \<Longrightarrow> shape n m (fst (stepResult gs j tot))"
  by (simp add: stepResult_def Let_def shape_def wf_slice_def)

lemma stepResult_frame: "frame gs (fst (stepResult gs j tot))"
  by (simp add: stepResult_def Let_def frame_def)

lemma stepResult_work:
  "(work_of (fst (stepResult gs j tot)), snd (stepResult gs j tot)) =
     spec_update (equations gs) (elems (solveInvCs gs)) (elems (solveBs gs)) j
       (work_of gs, tot)"
  by (simp add: stepResult_def spec_update_def spec_step_def spec_apply_def Let_def
      work_of_def elems_def take_update_swap)

lemma updateEquation_Some:
  assumes "shape n m gs" "0 \<le> j" "j < int m" "updateEquation gs j tot = Some (gs', tot')"
  shows "in_range n (equations gs ! nat j)" "shape n m gs'" "frame gs gs'"
    "(work_of gs', tot') =
       spec_update (equations gs) (elems (solveInvCs gs)) (elems (solveBs gs)) (nat j)
         (work_of gs, tot)"
proof -
  show r: "in_range n (equations gs ! nat j)"
    using assms updateEquation_out_of_range [of n m gs j tot] by auto
  have eq: "stepResult gs (nat j) tot = (gs', tot')"
    using updateEquation_eq [OF assms(1-3) r, of tot] assms(4) by simp
  show "shape n m gs'"
    using stepResult_shape [OF assms(1), of "nat j" tot] eq by simp
  show "frame gs gs'"
    using stepResult_frame [of gs "nat j" tot] eq by simp
  show "(work_of gs', tot') =
       spec_update (equations gs) (elems (solveInvCs gs)) (elems (solveBs gs)) (nat j)
         (work_of gs, tot)"
    using stepResult_work [of gs "nat j" tot] eq by simp
qed

lemma equationLoop_Some:
  assumes "shape n m gs" "0 \<le> j" "equationLoop gs j (int m) tot = Some (gs', tot')"
  shows "shape n m gs' \<and> frame gs gs' \<and>
         (\<forall>k. nat j \<le> k \<and> k < m \<longrightarrow> in_range n (equations gs ! k)) \<and>
         (work_of gs', tot') =
           fold (spec_update (equations gs) (elems (solveInvCs gs)) (elems (solveBs gs)))
             [nat j..<m] (work_of gs, tot)"
  using assms
proof (induction gs j "int m" tot rule: equationLoop.induct)
  case (1 gs j tot)
  show ?case
  proof (cases "j < int m")
    case False
    with "1.prems" show ?thesis by (auto simp: equationLoop.simps [of gs j])
  next
    case True
    from "1.prems"(3) True obtain gs1 tot1 where
      u: "updateEquation gs j tot = Some (gs1, tot1)"
      and rest: "equationLoop gs1 (j + 1) (int m) tot1 = Some (gs', tot')"
      by (auto simp: equationLoop.simps [of gs j] split: option.splits)
    note U = updateEquation_Some [OF "1.prems"(1,2) True u]
    have IH: "shape n m gs' \<and> frame gs1 gs' \<and>
         (\<forall>k. nat (j + 1) \<le> k \<and> k < m \<longrightarrow> in_range n (equations gs1 ! k)) \<and>
         (work_of gs', tot') =
           fold (spec_update (equations gs1) (elems (solveInvCs gs1)) (elems (solveBs gs1)))
             [nat (j + 1)..<m] (work_of gs1, tot1)"
      using "1.hyps" [OF True u refl U(2) _ rest] "1.prems"(2) by simp
    have fr: "equations gs1 = equations gs" "solveInvCs gs1 = solveInvCs gs"
      "solveBs gs1 = solveBs gs"
      using U(3) by (simp_all add: frame_def)
    have up: "[nat j..<m] = nat j # [nat (j + 1)..<m]"
      using True "1.prems"(2) by (simp add: upt_conv_Cons nat_add_distrib)
    have rng: "\<forall>k. nat j \<le> k \<and> k < m \<longrightarrow> in_range n (equations gs ! k)"
    proof (intro allI impI)
      fix k assume k: "nat j \<le> k \<and> k < m"
      show "in_range n (equations gs ! k)"
      proof (cases "k = nat j")
        case True then show ?thesis using U(1) by simp
      next
        case False
        with k "1.prems"(2) have "nat (j + 1) \<le> k \<and> k < m" by (simp add: nat_add_distrib)
        with IH fr show ?thesis by simp
      qed
    qed
    show ?thesis
      using IH U(3,4) fr rng by (simp add: up frame_trans [OF U(3)])
  qed
qed

lemma equationLoop_total:
  assumes "shape n m gs" "0 \<le> j"
    "\<forall>k. nat j \<le> k \<and> k < m \<longrightarrow> in_range n (equations gs ! k)"
  shows "equationLoop gs j (int m) tot \<noteq> None"
  using assms
proof (induction gs j "int m" tot rule: equationLoop.induct)
  case (1 gs j tot)
  show ?case
  proof (cases "j < int m")
    case False
    then show ?thesis by (simp add: equationLoop.simps [of gs j])
  next
    case True
    have r: "in_range n (equations gs ! nat j)"
      using "1.prems" True by simp
    let ?gs1 = "fst (stepResult gs (nat j) tot)" and ?t1 = "snd (stepResult gs (nat j) tot)"
    have u: "updateEquation gs j tot = Some (?gs1, ?t1)"
      using updateEquation_eq [OF "1.prems"(1,2) True r, of tot] by simp
    note U = updateEquation_Some [OF "1.prems"(1,2) True u]
    have "equations ?gs1 = equations gs" using U(3) by (simp add: frame_def)
    then have "\<forall>k. nat (j + 1) \<le> k \<and> k < m \<longrightarrow> in_range n (equations ?gs1 ! k)"
      using "1.prems"(2,3) by (simp add: nat_add_distrib)
    then have "equationLoop ?gs1 (j + 1) (int m) ?t1 \<noteq> None"
      using "1.hyps" [OF True u refl U(2)] "1.prems"(2) by simp
    then show ?thesis using True u
      by (simp add: equationLoop.simps [of gs j] split_beta)
  qed
qed

subsection \<open>The iteration loop\<close>

lemma all_in_range_nth:
  "all_in_range n eqs \<longleftrightarrow> (\<forall>k. k < length eqs \<longrightarrow> in_range n (eqs ! k))"
  by (auto simp: all_in_range_def all_set_conv_all_nth)

lemma iterate_Some:
  assumes "shape n m gs" "iterate gs iter limit tolSquared (int m) = Some (gs', r)"
  shows "shape n m gs' \<and> frame gs gs' \<and>
         (iter < limit \<longrightarrow> all_in_range n (equations gs)) \<and>
         (work_of gs', r) =
           work_iterate (equations gs) (elems (solveInvCs gs)) (elems (solveBs gs)) tolSquared
             (nat (limit - iter)) iter (work_of gs)"
  using assms
proof (induction gs iter limit tolSquared "int m" arbitrary: gs' r rule: iterate.induct)
  case (1 gs iter limit tolSquared)
  show ?case
  proof (cases "iter < limit")
    case False
    with "1.prems" show ?thesis by (auto simp: iterate.simps [of gs iter])
  next
    case True
    from "1.prems"(2) True obtain gs1 tot where
      p: "equationLoop gs 0 (int m) 0 = Some (gs1, tot)"
      and rest: "(if tot * tot < tolSquared then Some (gs1, iter)
                  else iterate gs1 (iter + 1) limit tolSquared (int m)) = Some (gs', r)"
      by (auto simp: iterate.simps [of gs iter] split: option.splits)
    have P: "shape n m gs1" "frame gs gs1"
      "\<forall>k. k < m \<longrightarrow> in_range n (equations gs ! k)"
      "(work_of gs1, tot) = spec_pass (equations gs) (elems (solveInvCs gs))
          (elems (solveBs gs)) (work_of gs)"
      using equationLoop_Some [OF "1.prems"(1) _ p] "1.prems"(1)
      by (simp_all add: spec_pass_def shape_def)
    have rng: "all_in_range n (equations gs)"
      using P(3) "1.prems"(1) by (simp add: all_in_range_nth shape_def)
    have k: "nat (limit - iter) = Suc (nat (limit - (iter + 1)))"
      using True by simp
    show ?thesis
    proof (cases "tot * tot < tolSquared")
      case conv: True
      with rest have "gs' = gs1" "r = iter" by simp_all
      then show ?thesis
        using P rng conv by (simp add: k P(4) [symmetric] del: work_iterate.simps(2))
           (simp add: P(4) [symmetric])
    next
      case noconv: False
      with rest have it: "iterate gs1 (iter + 1) limit tolSquared (int m) = Some (gs', r)"
        by simp
      have IH: "shape n m gs' \<and> frame gs1 gs' \<and>
         (work_of gs', r) =
           work_iterate (equations gs1) (elems (solveInvCs gs1)) (elems (solveBs gs1))
             tolSquared (nat (limit - (iter + 1))) (iter + 1) (work_of gs1)"
        using "1.hyps" [OF True p refl noconv P(1) it] by simp
      have fr: "equations gs1 = equations gs" "solveInvCs gs1 = solveInvCs gs"
        "solveBs gs1 = solveBs gs"
        using P(2) by (simp_all add: frame_def)
      show ?thesis
        using IH rng noconv frame_trans [OF P(2)]
        by (simp add: k fr P(4) [symmetric])
    qed
  qed
qed

lemma iterate_total:
  assumes "shape n m gs" "iter < limit \<longrightarrow> all_in_range n (equations gs)"
  shows "iterate gs iter limit tolSquared (int m) \<noteq> None"
  using assms
proof (induction gs iter limit tolSquared "int m" rule: iterate.induct)
  case (1 gs iter limit tolSquared)
  show ?case
  proof (cases "iter < limit")
    case False
    then show ?thesis by (simp add: iterate.simps [of gs iter])
  next
    case True
    have rng: "all_in_range n (equations gs)" using "1.prems" True by simp
    then have "\<forall>k. nat 0 \<le> k \<and> k < m \<longrightarrow> in_range n (equations gs ! k)"
      using "1.prems"(1) by (simp add: all_in_range_nth shape_def)
    from equationLoop_total [OF "1.prems"(1) _ this, of 0]
    obtain gs1 tot where p: "equationLoop gs 0 (int m) 0 = Some (gs1, tot)"
      by auto
    have P: "shape n m gs1" "frame gs gs1"
      using equationLoop_Some [OF "1.prems"(1) _ p] by simp_all
    show ?thesis
    proof (cases "tot * tot < tolSquared")
      case True
      then show ?thesis using p \<open>iter < limit\<close> by (simp add: iterate.simps [of gs iter])
    next
      case False
      have "all_in_range n (equations gs1)" using rng P(2) by (simp add: frame_def)
      then have "iterate gs1 (iter + 1) limit tolSquared (int m) \<noteq> None"
        using "1.hyps" [OF True p refl False P(1)] by simp
      then show ?thesis using p True False by (simp add: iterate.simps [of gs iter])
    qed
  qed
qed

lemma iterate_None:
  assumes "shape n m gs" "iter < limit" "\<not> all_in_range n (equations gs)"
  shows "iterate gs iter limit tolSquared (int m) = None"
proof (cases "iterate gs iter limit tolSquared (int m)")
  case None
  then show ?thesis .
next
  case (Some res)
  then show ?thesis
    using iterate_Some [OF assms(1), of iter limit tolSquared "fst res" "snd res"] assms(2,3)
    by simp
qed

subsection \<open>The loops before and after the iterations\<close>

lemma resetDeltas_char:
  assumes "wf_slice (VelocityDeltas gs)" "wf_slice (AngularVelocityDeltas gs)"
  shows "wf_slice (VelocityDeltas (resetDeltas gs i nBodies)) \<and>
         wf_slice (AngularVelocityDeltas (resetDeltas gs i nBodies)) \<and>
         elems (VelocityDeltas (resetDeltas gs i nBodies)) =
           elems (VelocityDeltas gs) @ replicate (nat (nBodies - i)) zero3 \<and>
         elems (AngularVelocityDeltas (resetDeltas gs i nBodies)) =
           elems (AngularVelocityDeltas gs) @ replicate (nat (nBodies - i)) zero3 \<and>
         equations (resetDeltas gs i nBodies) = equations gs \<and>
         maxIter (resetDeltas gs i nBodies) = maxIter gs \<and>
         tolerance (resetDeltas gs i nBodies) = tolerance gs \<and>
         solveInvCs (resetDeltas gs i nBodies) = solveInvCs gs \<and>
         solveBs (resetDeltas gs i nBodies) = solveBs gs \<and>
         solveLambda (resetDeltas gs i nBodies) = solveLambda gs"
  using assms
proof (induction gs i nBodies rule: resetDeltas.induct)
  case (1 gs i nBodies)
  show ?case
  proof (cases "i < nBodies")
    case False
    then show ?thesis using "1.prems" by (simp add: resetDeltas.simps [of gs i])
  next
    case True
    have k: "nat (nBodies - i) = Suc (nat (nBodies - (i + 1)))"
      using True by simp
    show ?thesis
      using "1.IH" [OF True] "1.prems" True
      by (simp add: resetDeltas.simps [of gs i] k zero3_def)
  qed
qed

lemma precompute_char:
  assumes "wf_slice (solveInvCs gs)" "wf_slice (solveBs gs)" "wf_slice (solveLambda gs)"
    "0 \<le> i"
  shows "\<exists>gs'. precompute gs h i (int (length (equations gs))) = Some gs' \<and>
         wf_slice (solveInvCs gs') \<and> wf_slice (solveBs gs') \<and> wf_slice (solveLambda gs') \<and>
         elems (solveInvCs gs') =
           elems (solveInvCs gs) @ map (\<lambda>e. 1 / ComputeC e) (drop (nat i) (equations gs)) \<and>
         elems (solveBs gs') =
           elems (solveBs gs) @ map (\<lambda>e. ComputeB e h) (drop (nat i) (equations gs)) \<and>
         elems (solveLambda gs') =
           elems (solveLambda gs) @ replicate (length (equations gs) - nat i) 0 \<and>
         equations gs' = equations gs \<and> maxIter gs' = maxIter gs \<and>
         tolerance gs' = tolerance gs \<and> VelocityDeltas gs' = VelocityDeltas gs \<and>
         AngularVelocityDeltas gs' = AngularVelocityDeltas gs"
  using assms
proof (induction gs h i "int (length (equations gs))" rule: precompute.induct)
  case (1 gs h i)
  let ?n = "int (length (equations gs))"
  show ?case
  proof (cases "i < ?n")
    case False
    then show ?thesis using "1.prems" by (simp add: precompute.simps [of gs h i])
  next
    case True
    let ?eq = "equations gs ! nat i"
    let ?gs1 = "gs\<lparr>solveInvCs := append_sl (solveInvCs gs) (1 / ComputeC ?eq),
                    solveBs := append_sl (solveBs gs) (ComputeB ?eq h),
                    solveLambda := append_sl (solveLambda gs) 0\<rparr>"
    have eq: "index_list (equations gs) i = Some ?eq"
      using True "1.prems"(4) by (simp add: index_list_eq)
    have step: "precompute gs h i ?n = precompute ?gs1 h (i + 1) ?n"
      using True eq by (simp add: precompute.simps [of gs h i])
    have d: "drop (nat i) (equations gs) = ?eq # drop (nat (i + 1)) (equations gs)"
      using True "1.prems"(4) by (simp add: Cons_nth_drop_Suc nat_add_distrib)
    have k: "length (equations gs) - nat i = Suc (length (equations gs) - nat (i + 1))"
      using True "1.prems"(4) by (simp add: nat_add_distrib)
    obtain gs' where IH: "precompute ?gs1 h (i + 1) ?n = Some gs'"
      "wf_slice (solveInvCs gs')" "wf_slice (solveBs gs')" "wf_slice (solveLambda gs')"
      "elems (solveInvCs gs') =
         elems (solveInvCs ?gs1) @ map (\<lambda>e. 1 / ComputeC e) (drop (nat (i + 1)) (equations gs))"
      "elems (solveBs gs') =
         elems (solveBs ?gs1) @ map (\<lambda>e. ComputeB e h) (drop (nat (i + 1)) (equations gs))"
      "elems (solveLambda gs') =
         elems (solveLambda ?gs1) @ replicate (length (equations gs) - nat (i + 1)) 0"
      "equations gs' = equations gs" "maxIter gs' = maxIter gs"
      "tolerance gs' = tolerance gs" "VelocityDeltas gs' = VelocityDeltas gs"
      "AngularVelocityDeltas gs' = AngularVelocityDeltas gs"
      using "1.hyps" [OF True eq] "1.prems" by auto
    show ?thesis
      using IH "1.prems"(1-3)
      by (simp add: step d k)
  qed
qed

lemma setMultipliers_char:
  assumes "wf_slice (solveLambda gs)" "len (solveLambda gs) = length (equations gs)" "0 \<le> i"
  shows "\<exists>eqs'. setMultipliers gs h i = Some (gs\<lparr>equations := eqs'\<rparr>) \<and>
           length eqs' = length (equations gs) \<and>
           (\<forall>k < length (equations gs). eqs' ! k =
              (if nat i \<le> k
               then SetMultiplier (equations gs ! k) (elems (solveLambda gs) ! k / h)
               else equations gs ! k))"
  using assms
proof (induction gs h i rule: setMultipliers.induct)
  case (1 gs h i)
  let ?n = "int (length (equations gs))"
  show ?case
  proof (cases "i < ?n")
    case False
    then have "setMultipliers gs h i = Some (gs\<lparr>equations := equations gs\<rparr>)"
      by (simp add: setMultipliers.simps [of gs h i])
    then show ?thesis using False by (intro exI [of _ "equations gs"]) auto
  next
    case True
    let ?eq = "equations gs ! nat i" and ?l = "elems (solveLambda gs) ! nat i"
    let ?gs1 = "gs\<lparr>equations := (equations gs)[nat i := SetMultiplier ?eq (?l / h)]\<rparr>"
    have eq: "index_list (equations gs) i = Some ?eq"
      using True "1.prems"(3) by (simp add: index_list_eq)
    have l: "index_sl (solveLambda gs) i = Some ?l"
      using True "1.prems" by (simp add: index_sl_eq)
    have step: "setMultipliers gs h i = setMultipliers ?gs1 h (i + 1)"
      using True eq l by (simp add: setMultipliers.simps [of gs h i])
    obtain eqs' where IH: "setMultipliers ?gs1 h (i + 1) = Some (?gs1\<lparr>equations := eqs'\<rparr>)"
      "length eqs' = length (equations gs)"
      "\<forall>k < length (equations gs). eqs' ! k =
              (if nat (i + 1) \<le> k
               then SetMultiplier (equations ?gs1 ! k) (elems (solveLambda gs) ! k / h)
               else equations ?gs1 ! k)"
      using "1.IH" [OF True eq l] "1.prems" by auto
    have "\<forall>k < length (equations gs). eqs' ! k =
              (if nat i \<le> k
               then SetMultiplier (equations gs ! k) (elems (solveLambda gs) ! k / h)
               else equations gs ! k)"
    proof (intro allI impI)
      fix k assume k: "k < length (equations gs)"
      show "eqs' ! k = (if nat i \<le> k
               then SetMultiplier (equations gs ! k) (elems (solveLambda gs) ! k / h)
               else equations gs ! k)"
      proof (cases "k = nat i")
        case True
        then show ?thesis using IH(3) k "1.prems"(3) by (simp add: nat_add_distrib)
      next
        case False
        then show ?thesis using IH(3) k "1.prems"(3) by (auto simp: nat_add_distrib)
      qed
    qed
    then show ?thesis
      using IH(1,2) step by (intro exI [of _ eqs']) simp
  qed
qed

subsection \<open>Solve, characterised\<close>

lemma Solve_start:
  "\<exists>gs1. precompute (resetDeltas (Reset gs) 0 nBodies) h 0 (int (length (equations gs))) =
            Some gs1 \<and>
         shape (nat nBodies) (length (equations gs)) gs1 \<and>
         equations gs1 = equations gs \<and> maxIter gs1 = maxIter gs \<and>
         tolerance gs1 = tolerance gs \<and>
         elems (solveInvCs gs1) = spec_invC (equations gs) \<and>
         elems (solveBs gs1) = spec_b (equations gs) h \<and>
         work_of gs1 = work0 (length (equations gs)) nBodies"
proof -
  let ?rs = "Reset gs"
  let ?g = "resetDeltas ?rs 0 nBodies"
  have R: "wf_slice (VelocityDeltas ?g)" "wf_slice (AngularVelocityDeltas ?g)"
    "elems (VelocityDeltas ?g) = replicate (nat nBodies) zero3"
    "elems (AngularVelocityDeltas ?g) = replicate (nat nBodies) zero3"
    "equations ?g = equations gs" "maxIter ?g = maxIter gs" "tolerance ?g = tolerance gs"
    "solveInvCs ?g = reslice0 (solveInvCs gs)" "solveBs ?g = reslice0 (solveBs gs)"
    "solveLambda ?g = reslice0 (solveLambda gs)"
    using resetDeltas_char [of ?rs 0 nBodies] by (simp_all add: Reset_def)
  have "wf_slice (solveInvCs ?g)" "wf_slice (solveBs ?g)" "wf_slice (solveLambda ?g)"
    by (simp_all add: R)
  from precompute_char [OF this, of 0 h]
  obtain gs1 where P: "precompute ?g h 0 (int (length (equations gs))) = Some gs1"
    "wf_slice (solveInvCs gs1)" "wf_slice (solveBs gs1)" "wf_slice (solveLambda gs1)"
    "elems (solveInvCs gs1) = map (\<lambda>e. 1 / ComputeC e) (equations gs)"
    "elems (solveBs gs1) = map (\<lambda>e. ComputeB e h) (equations gs)"
    "elems (solveLambda gs1) = replicate (length (equations gs)) 0"
    "equations gs1 = equations gs" "maxIter gs1 = maxIter gs"
    "tolerance gs1 = tolerance gs" "VelocityDeltas gs1 = VelocityDeltas ?g"
    "AngularVelocityDeltas gs1 = AngularVelocityDeltas ?g"
    by (auto simp: R)
  have len: "len (solveInvCs gs1) = length (equations gs)"
    "len (solveBs gs1) = length (equations gs)"
    "len (solveLambda gs1) = length (equations gs)"
    "len (VelocityDeltas ?g) = nat nBodies" "len (AngularVelocityDeltas ?g) = nat nBodies"
    using length_elems [OF P(2)] length_elems [OF P(3)] length_elems [OF P(4)]
      length_elems [OF R(1)] length_elems [OF R(2)]
    by (simp_all add: P R)
  show ?thesis
    using P R(1-4) len
    by (intro exI [of _ gs1]) (simp add: shape_def spec_invC_def spec_b_def work_of_def work0_def)
qed

lemma Solve_empty:
  assumes "equations gs = []"
  shows "\<exists>gs'. Solve gs h nBodies = Some (0, gs') \<and> shape (nat nBodies) 0 gs' \<and>
           equations gs' = [] \<and> maxIter gs' = maxIter gs \<and> tolerance gs' = tolerance gs \<and>
           work_of gs' = work0 0 nBodies"
  using Solve_start [of gs nBodies h] assms
  by (auto simp: Solve_def Reset_def Let_def)

lemma zip_SetMultiplier_nth:
  assumes "length eqs' = length eqs" "length ls = length eqs"
    "\<forall>k < length eqs. eqs' ! k = SetMultiplier (eqs ! k) (ls ! k / h)"
  shows "eqs' = map2 (\<lambda>e l. SetMultiplier e (l / h)) eqs ls"
  using assms by (intro nth_equalityI) simp_all

lemma Solve_Some:
  assumes "Solve gs h nBodies = Some (r, gs')"
  shows "shape (nat nBodies) (length (equations gs)) gs'"
    "(work_of gs', r) = work_solve (equations gs) (maxIter gs) (tolerance gs) h nBodies"
    "equations gs' =
       map2 (\<lambda>e l. SetMultiplier e (l / h)) (equations gs) (lam (work_of gs'))"
    "maxIter gs' = maxIter gs" "tolerance gs' = tolerance gs"
    "elems (solveInvCs gs') = spec_invC (equations gs)"
    "elems (solveBs gs') = spec_b (equations gs) h"
    "equations gs \<noteq> [] \<Longrightarrow> 0 < maxIter gs \<Longrightarrow> all_in_range (nat nBodies) (equations gs)"
proof -
  let ?m = "length (equations gs)"
  obtain gs1 where S: "precompute (resetDeltas (Reset gs) 0 nBodies) h 0 (int ?m) = Some gs1"
    "shape (nat nBodies) ?m gs1" "equations gs1 = equations gs" "maxIter gs1 = maxIter gs"
    "tolerance gs1 = tolerance gs" "elems (solveInvCs gs1) = spec_invC (equations gs)"
    "elems (solveBs gs1) = spec_b (equations gs) h" "work_of gs1 = work0 ?m nBodies"
    using Solve_start [of gs nBodies h] by auto
  have all: "shape (nat nBodies) ?m gs' \<and>
    (work_of gs', r) = work_solve (equations gs) (maxIter gs) (tolerance gs) h nBodies \<and>
    equations gs' = map2 (\<lambda>e l. SetMultiplier e (l / h)) (equations gs) (lam (work_of gs')) \<and>
    maxIter gs' = maxIter gs \<and> tolerance gs' = tolerance gs \<and>
    elems (solveInvCs gs') = spec_invC (equations gs) \<and>
    elems (solveBs gs') = spec_b (equations gs) h \<and>
    (equations gs \<noteq> [] \<longrightarrow> 0 < maxIter gs \<longrightarrow> all_in_range (nat nBodies) (equations gs))"
  proof (cases "equations gs = []")
    case True
    then show ?thesis
      using assms S by (simp add: Solve_def Reset_def Let_def work_solve_def)
  next
    case False
    then have pos: "0 < int ?m" by simp
    from assms S(1) pos obtain gs2 iter where
      it: "iterate gs1 0 (maxIter gs1) (tolerance gs1 * tolerance gs1) (int ?m) = Some (gs2, iter)"
      and sm: "setMultipliers gs2 h 0 = Some gs'" and r: "r = iter + 1"
      by (auto simp: Solve_def Reset_def Let_def split: option.splits)
    have I: "shape (nat nBodies) ?m gs2" "frame gs1 gs2"
      "0 < maxIter gs1 \<longrightarrow> all_in_range (nat nBodies) (equations gs1)"
      "(work_of gs2, iter) =
         work_iterate (equations gs1) (elems (solveInvCs gs1)) (elems (solveBs gs1))
           (tolerance gs1 * tolerance gs1) (nat (maxIter gs1 - 0)) 0 (work_of gs1)"
      using iterate_Some [OF S(2) it] by simp_all
    have wl: "wf_slice (solveLambda gs2)" "len (solveLambda gs2) = length (equations gs2)"
      using I(1) by (simp_all add: shape_def)
    from setMultipliers_char [OF wl, of 0 h] sm
    obtain eqs' where E: "gs' = gs2\<lparr>equations := eqs'\<rparr>"
      "length eqs' = length (equations gs2)"
      "\<forall>k < length (equations gs2). eqs' ! k =
         SetMultiplier (equations gs2 ! k) (elems (solveLambda gs2) ! k / h)"
      by auto
    have fr: "equations gs2 = equations gs" "maxIter gs2 = maxIter gs"
      "tolerance gs2 = tolerance gs" "solveInvCs gs2 = solveInvCs gs1"
      "solveBs gs2 = solveBs gs1"
      using I(2) S by (simp_all add: frame_def)
    have w: "work_of gs' = work_of gs2"
      by (simp add: E(1) work_of_def)
    have ll: "length (elems (solveLambda gs2)) = length (equations gs2)"
      using wl by simp
    have eqs: "eqs' = map2 (\<lambda>e l. SetMultiplier e (l / h)) (equations gs2)
                 (elems (solveLambda gs2))"
      using zip_SetMultiplier_nth [OF E(2) ll E(3)] .
    have "shape (nat nBodies) ?m gs'"
      using I(1) E(2) by (simp add: E(1) shape_def fr)
    moreover have "(work_of gs', r) =
        work_solve (equations gs) (maxIter gs) (tolerance gs) h nBodies"
      using I(4) [symmetric] False by (simp add: w r work_solve_def S)
    moreover have "equations gs' =
        map2 (\<lambda>e l. SetMultiplier e (l / h)) (equations gs) (lam (work_of gs'))"
      using eqs by (simp add: E(1) fr work_of_def)
    ultimately show ?thesis
      using I(3) fr S by (simp add: E(1))
  qed
  from all show "shape (nat nBodies) (length (equations gs)) gs'"
    "(work_of gs', r) = work_solve (equations gs) (maxIter gs) (tolerance gs) h nBodies"
    "equations gs' =
       map2 (\<lambda>e l. SetMultiplier e (l / h)) (equations gs) (lam (work_of gs'))"
    "maxIter gs' = maxIter gs" "tolerance gs' = tolerance gs"
    "elems (solveInvCs gs') = spec_invC (equations gs)"
    "elems (solveBs gs') = spec_b (equations gs) h"
    "equations gs \<noteq> [] \<Longrightarrow> 0 < maxIter gs \<Longrightarrow> all_in_range (nat nBodies) (equations gs)"
    by simp_all
qed

lemma Solve_None_iff:
  "Solve gs h nBodies = None \<longleftrightarrow>
     equations gs \<noteq> [] \<and> 0 < maxIter gs \<and> \<not> all_in_range (nat nBodies) (equations gs)"
proof -
  let ?m = "length (equations gs)"
  obtain gs1 where S: "precompute (resetDeltas (Reset gs) 0 nBodies) h 0 (int ?m) = Some gs1"
    "shape (nat nBodies) ?m gs1" "equations gs1 = equations gs" "maxIter gs1 = maxIter gs"
    using Solve_start [of gs nBodies h] by auto
  show ?thesis
  proof (cases "equations gs \<noteq> [] \<and> 0 < maxIter gs \<and>
                \<not> all_in_range (nat nBodies) (equations gs)")
    case True
    then have "iterate gs1 0 (maxIter gs1) (tolerance gs1 * tolerance gs1) (int ?m) = None"
      using iterate_None [OF S(2), of 0 "maxIter gs1"] S by simp
    then show ?thesis
      using True S(1) by (simp add: Solve_def Reset_def Let_def)
  next
    case False
    have "Solve gs h nBodies \<noteq> None"
    proof (cases "equations gs = []")
      case True
      then show ?thesis using Solve_empty [OF True, of h nBodies] by auto
    next
      case ne: False
      with False have "0 < maxIter gs1 \<longrightarrow> all_in_range (nat nBodies) (equations gs1)"
        using S by auto
      from iterate_total [OF S(2) this, of "tolerance gs1 * tolerance gs1"]
      obtain gs2 iter where
        it: "iterate gs1 0 (maxIter gs1) (tolerance gs1 * tolerance gs1) (int ?m) =
               Some (gs2, iter)"
        by auto
      have "shape (nat nBodies) ?m gs2" "frame gs1 gs2"
        using iterate_Some [OF S(2) it] by simp_all
      then have wl: "wf_slice (solveLambda gs2)"
        "len (solveLambda gs2) = length (equations gs2)"
        using S by (simp_all add: shape_def frame_def)
      from setMultipliers_char [OF wl, of 0 h] obtain g where
        "setMultipliers gs2 h 0 = Some g"
        by auto
      then show ?thesis
        using S(1) it ne by (simp add: Solve_def Reset_def Let_def)
    qed
    with False show ?thesis by blast
  qed
qed

subsection \<open>What Solve reads of its equations\<close>

lemma coeffs_SetMultiplier [simp]: "coeffs (SetMultiplier e x) = coeffs e"
  by (simp add: coeffs_def SetMultiplier_def)

lemma coeffs_eq_SetMultiplier:
  "coeffs e1 = coeffs e2 \<Longrightarrow> SetMultiplier e1 x = SetMultiplier e2 x"
  by (cases e1, cases e2) (simp add: coeffs_def SetMultiplier_def)

lemma coeffs_nth:
  assumes "map coeffs eqs1 = map coeffs eqs2" "j < length eqs1"
  shows "coeffs (eqs1 ! j) = coeffs (eqs2 ! j)"
proof -
  have len: "length eqs1 = length eqs2" using assms(1) by (rule map_eq_imp_length_eq)
  have "coeffs (eqs1 ! j) = map coeffs eqs1 ! j" using assms(2) by simp
  also have "\<dots> = map coeffs eqs2 ! j" by (simp only: assms(1))
  also have "\<dots> = coeffs (eqs2 ! j)" using assms(2) len by simp
  finally show ?thesis .
qed

lemma coeffs_eqD: "coeffs e1 = coeffs e2 \<Longrightarrow> e1 = e2\<lparr>multiplier := multiplier e1\<rparr>"
  by (cases e1, cases e2) (simp add: coeffs_def)

lemma spec_GWlambda_multiplier [simp]:
  "spec_GWlambda (e\<lparr>multiplier := x\<rparr>) w = spec_GWlambda e w"
  by (simp add: spec_GWlambda_def Let_def)

lemma spec_clamp_multiplier [simp]:
  "spec_clamp (e\<lparr>multiplier := x\<rparr>) l d = spec_clamp e l d"
  by (simp add: spec_clamp_def Let_def)

lemma spec_deltaLambda_multiplier [simp]:
  "spec_deltaLambda (e\<lparr>multiplier := x\<rparr>) invC b w l = spec_deltaLambda e invC b w l"
  by (simp add: spec_deltaLambda_def)

lemma spec_apply_multiplier [simp]:
  "spec_apply (e\<lparr>multiplier := x\<rparr>) d w = spec_apply e d w"
  by (simp add: spec_apply_def Let_def)

lemma spec_step_multiplier [simp]:
  "spec_step (e\<lparr>multiplier := x\<rparr>) invC b j = spec_step e invC b j"
  by (simp add: spec_step_def Let_def)

lemma spec_update_coeffs:
  assumes "coeffs (eqs1 ! j) = coeffs (eqs2 ! j)"
  shows "spec_update eqs1 invC b j = spec_update eqs2 invC b j"
proof -
  have "spec_step (eqs1 ! j) = spec_step ((eqs2 ! j)\<lparr>multiplier := multiplier (eqs1 ! j)\<rparr>)"
    by (rule arg_cong [OF coeffs_eqD [OF assms]])
  also have "\<dots> = spec_step (eqs2 ! j)"
    by (intro ext) simp
  finally have "spec_step (eqs1 ! j) = spec_step (eqs2 ! j)" .
  then show ?thesis by (simp add: spec_update_def)
qed

lemma spec_pass_coeffs:
  assumes "map coeffs eqs1 = map coeffs eqs2"
  shows "spec_pass eqs1 invC b w = spec_pass eqs2 invC b w"
proof -
  have len: "length eqs1 = length eqs2" using assms by (rule map_eq_imp_length_eq)
  have "fold (spec_update eqs1 invC b) [0..<length eqs1] (w, 0) =
        fold (spec_update eqs2 invC b) [0..<length eqs1] (w, 0)"
  proof (rule fold_cong)
    fix j assume "j \<in> set [0..<length eqs1]"
    then have j: "j < length eqs1" by simp
    show "spec_update eqs1 invC b j = spec_update eqs2 invC b j"
      by (rule spec_update_coeffs [OF coeffs_nth [OF assms j]])
  qed simp_all
  then show ?thesis by (simp add: spec_pass_def len)
qed

lemma work_iterate_coeffs:
  assumes "map coeffs eqs1 = map coeffs eqs2"
  shows "work_iterate eqs1 invC b t k iter w = work_iterate eqs2 invC b t k iter w"
  by (induction k arbitrary: iter w)
    (simp_all add: spec_pass_coeffs [OF assms] split: prod.splits)

lemma spec_invC_coeffs:
  assumes "map coeffs eqs1 = map coeffs eqs2"
  shows "spec_invC eqs1 = spec_invC eqs2"
proof -
  have "map (\<lambda>c. 1 / fst (snd (snd c))) (map coeffs eqs1) =
        map (\<lambda>c. 1 / fst (snd (snd c))) (map coeffs eqs2)"
    by (simp only: assms)
  then show ?thesis by (simp add: spec_invC_def coeffs_def o_def)
qed

lemma spec_b_coeffs:
  assumes "map coeffs eqs1 = map coeffs eqs2"
  shows "spec_b eqs1 h = spec_b eqs2 h"
proof -
  have "map (\<lambda>c. fst (snd (snd (snd c))) h) (map coeffs eqs1) =
        map (\<lambda>c. fst (snd (snd (snd c))) h) (map coeffs eqs2)"
    by (simp only: assms)
  then show ?thesis by (simp add: spec_b_def coeffs_def o_def)
qed

lemma all_in_range_coeffs:
  assumes "map coeffs eqs1 = map coeffs eqs2"
  shows "all_in_range n eqs1 = all_in_range n eqs2"
proof -
  have len: "length eqs1 = length eqs2" using assms by (rule map_eq_imp_length_eq)
  have "in_range n (eqs1 ! k) = in_range n (eqs2 ! k)" if "k < length eqs1" for k
    using coeffs_nth [OF assms that] by (simp add: in_range_def coeffs_def)
  then show ?thesis by (simp add: all_in_range_nth len)
qed

lemma work_solve_coeffs:
  assumes "map coeffs eqs1 = map coeffs eqs2"
  shows "work_solve eqs1 limit tol h nBodies = work_solve eqs2 limit tol h nBodies"
proof -
  have len: "length eqs1 = length eqs2" using assms by (rule map_eq_imp_length_eq)
  then have e: "eqs1 = [] \<longleftrightarrow> eqs2 = []" by auto
  show ?thesis
    by (simp add: work_solve_def e len spec_invC_coeffs [OF assms] spec_b_coeffs [OF assms]
        work_iterate_coeffs [OF assms])
qed

lemma map2_SetMultiplier_coeffs:
  assumes "map coeffs eqs1 = map coeffs eqs2"
  shows "map2 (\<lambda>e l. SetMultiplier e (l / h)) eqs1 ls = map2 (\<lambda>e l. SetMultiplier e (l / h)) eqs2 ls"
proof -
  have len: "length eqs1 = length eqs2" using assms by (rule map_eq_imp_length_eq)
  show ?thesis
    by (rule nth_equalityI)
      (simp_all add: len coeffs_eq_SetMultiplier [OF coeffs_nth [OF assms]])
qed

lemma Solve_inputs_only:
  assumes "map coeffs (equations gs1) = map coeffs (equations gs2)"
    "maxIter gs1 = maxIter gs2" "tolerance gs1 = tolerance gs2"
  shows "(Solve gs1 h nBodies = None \<longleftrightarrow> Solve gs2 h nBodies = None)"
    "Solve gs1 h nBodies = Some (r1, g1) \<Longrightarrow> Solve gs2 h nBodies = Some (r2, g2) \<Longrightarrow>
       r1 = r2 \<and> work_of g1 = work_of g2 \<and> equations g1 = equations g2 \<and>
       elems (solveInvCs g1) = elems (solveInvCs g2) \<and>
       elems (solveBs g1) = elems (solveBs g2)"
proof -
  have len: "length (equations gs1) = length (equations gs2)"
    using assms(1) by (rule map_eq_imp_length_eq)
  then have e: "equations gs1 = [] \<longleftrightarrow> equations gs2 = []" by auto
  show "(Solve gs1 h nBodies = None \<longleftrightarrow> Solve gs2 h nBodies = None)"
    by (simp add: Solve_None_iff e assms(2) all_in_range_coeffs [OF assms(1)])
  assume s1: "Solve gs1 h nBodies = Some (r1, g1)" and s2: "Solve gs2 h nBodies = Some (r2, g2)"
  note A = Solve_Some [OF s1] and B = Solve_Some [OF s2]
  have w: "(work_of g1, r1) = (work_of g2, r2)"
    using A(2) B(2) by (simp add: assms(2,3) work_solve_coeffs [OF assms(1)])
  then have "equations g1 = equations g2"
    using A(3) B(3) by (simp add: map2_SetMultiplier_coeffs [OF assms(1)])
  with w A(6,7) B(6,7) show "r1 = r2 \<and> work_of g1 = work_of g2 \<and> equations g1 = equations g2 \<and>
       elems (solveInvCs g1) = elems (solveInvCs g2) \<and>
       elems (solveBs g1) = elems (solveBs g2)"
    by (simp add: spec_invC_coeffs [OF assms(1)] spec_b_coeffs [OF assms(1)])
qed

subsection \<open>Clamping in the model of the IEEE values\<close>



lemma lam_spec_apply [simp]: "lam (spec_apply eq d w) = lam w"
  by (simp add: spec_apply_def Let_def)

lemma length_spec_apply [simp]:
  "length (vel (spec_apply eq d w)) = length (vel w)"
  "length (ang (spec_apply eq d w)) = length (ang w)"
  by (simp_all add: spec_apply_def Let_def)


lemma length_spec_update [simp]:
  "length (lam (fst (spec_update eqs invC b j x))) = length (lam (fst x))"
  "length (vel (fst (spec_update eqs invC b j x))) = length (vel (fst x))"
  "length (ang (fst (spec_update eqs invC b j x))) = length (ang (fst x))"
  by (cases x; simp add: spec_update_def spec_step_def Let_def)+









subsection \<open>Bodies that do not move\<close>








lemma f32_less_NaN [simp]: "f32_less x NaN = False" "f32_less NaN x = False"
  by (cases x; simp)+

lemma f32_add_NaN [simp]: "f32_add x NaN = NaN" "f32_add NaN x = NaN"
  by (cases x; simp)+











lemma spec_apply_lam_update [simp]:
  "vel (spec_apply eq d (w\<lparr>lam := x\<rparr>)) = vel (spec_apply eq d w)"
  "ang (spec_apply eq d (w\<lparr>lam := x\<rparr>)) = ang (spec_apply eq d w)"
  by (simp_all add: spec_apply_def Let_def)





section \<open>Facts shared by the claims\<close>


lemma work_of_simps [simp]:
  "lam (work_of gs) = elems (solveLambda gs)"
  "vel (work_of gs) = elems (VelocityDeltas gs)"
  "ang (work_of gs) = elems (AngularVelocityDeltas gs)"
  by (simp_all add: work_of_def)

lemma work0_simps [simp]:
  "lam (work0 m nBodies) = replicate m 0"
  "vel (work0 m nBodies) = replicate (nat nBodies) zero3"
  "ang (work0 m nBodies) = replicate (nat nBodies) zero3"
  by (simp_all add: work0_def)

lemma work_of_eqD:
  "work_of g1 = work_of g2 \<Longrightarrow>
     elems (solveLambda g1) = elems (solveLambda g2) \<and>
     elems (VelocityDeltas g1) = elems (VelocityDeltas g2) \<and>
     elems (AngularVelocityDeltas g1) = elems (AngularVelocityDeltas g2)"
  by (simp add: work_of_def)


lemma Solve_total:
  "all_in_range (nat nBodies) (equations gs) \<Longrightarrow> Solve gs h nBodies \<noteq> None"
  by (simp add: Solve_None_iff)

subsection \<open>The value returned\<close>

text \<open>
  \<^verbatim>\<open>Solve\<close> returns the value of \<^verbatim>\<open>iter\<close> at the exit of the iteration loop, plus one
  (line 142). When the check of the iteration of index \<open>j\<close> is the first to pass, that
  is \<open>j + 1\<close>. When no check passes the loop ends with \<^verbatim>\<open>iter = maxIter\<close>, and the value
  returned is \<open>maxIter + 1\<close> (1 when \<open>maxIter\<close> is not positive).
\<close>

lemma after_passes_Suc:
  "after_passes eqs invC b (Suc i) w =
     after_passes eqs invC b i (fst (spec_pass eqs invC b w))"
  by (simp only: after_passes_def funpow_Suc_right o_apply)

lemma converges_at_Suc:
  "converges_at eqs invC b t w (Suc i) =
     converges_at eqs invC b t (fst (spec_pass eqs invC b w)) i"
  by (simp add: converges_at_def after_passes_Suc)

lemma converges_at_0:
  "converges_at eqs invC b t w 0 =
     (snd (spec_pass eqs invC b w) * snd (spec_pass eqs invC b w) < t)"
  by (simp add: converges_at_def after_passes_def Let_def)

lemma work_iterate_exhausted:
  assumes "\<forall>i < k. \<not> converges_at eqs invC b t w i"
  shows "snd (work_iterate eqs invC b t k iter w) = iter + int k"
  using assms
proof (induction k arbitrary: iter w)
  case 0
  then show ?case by simp
next
  case (Suc k)
  have n0: "\<not> snd (spec_pass eqs invC b w) * snd (spec_pass eqs invC b w) < t"
    using Suc.prems converges_at_0 [of eqs invC b t w] by auto
  have "\<forall>i < k. \<not> converges_at eqs invC b t (fst (spec_pass eqs invC b w)) i"
    using Suc.prems by (auto simp: converges_at_Suc [symmetric])
  from Suc.IH [OF this, of "iter + 1"] show ?case
    using n0 by (simp add: split_beta)
qed

lemma work_iterate_converged:
  assumes "j < k" "converges_at eqs invC b t w j" "\<forall>i < j. \<not> converges_at eqs invC b t w i"
  shows "snd (work_iterate eqs invC b t k iter w) = iter + int j"
  using assms
proof (induction k arbitrary: iter w j)
  case 0
  then show ?case by simp
next
  case (Suc k)
  show ?case
  proof (cases j)
    case 0
    then show ?thesis
      using Suc.prems(2) converges_at_0 [of eqs invC b t w] by (simp add: split_beta)
  next
    case (Suc j')
    have n0: "\<not> snd (spec_pass eqs invC b w) * snd (spec_pass eqs invC b w) < t"
      using Suc.prems(3) Suc converges_at_0 [of eqs invC b t w] by auto
    have c: "converges_at eqs invC b t (fst (spec_pass eqs invC b w)) j'"
      using Suc.prems(2) Suc by (simp add: converges_at_Suc)
    have n: "\<forall>i < j'. \<not> converges_at eqs invC b t (fst (spec_pass eqs invC b w)) i"
      using Suc.prems(3) Suc by (auto simp: converges_at_Suc [symmetric])
    have "j' < k" using Suc.prems(1) Suc by simp
    from Suc.IH [OF this c n, of "iter + 1"] show ?thesis
      using n0 Suc by (simp add: split_beta)
  qed
qed

lemma Solve_return_value:
  assumes "Solve gs h nBodies = Some (r, gs')" "equations gs \<noteq> []"
  shows "(\<forall>i < nat (maxIter gs).
            \<not> converges_at (equations gs) (spec_invC (equations gs)) (spec_b (equations gs) h)
                (tolerance gs * tolerance gs) (work0 (length (equations gs)) nBodies) i) \<longrightarrow>
         r = int (nat (maxIter gs)) + 1"
    and "j < nat (maxIter gs) \<and>
         converges_at (equations gs) (spec_invC (equations gs)) (spec_b (equations gs) h)
           (tolerance gs * tolerance gs) (work0 (length (equations gs)) nBodies) j \<and>
         (\<forall>i < j.
            \<not> converges_at (equations gs) (spec_invC (equations gs)) (spec_b (equations gs) h)
                (tolerance gs * tolerance gs) (work0 (length (equations gs)) nBodies) i) \<longrightarrow>
         r = int j + 1"
proof -
  let ?eqs = "equations gs" and ?t = "tolerance gs * tolerance gs"
  let ?w0 = "work0 (length (equations gs)) nBodies :: 'a work"
  let ?res = "work_iterate ?eqs (spec_invC ?eqs) (spec_b ?eqs h) ?t (nat (maxIter gs)) 0 ?w0"
  have "(work_of gs', r) = (fst ?res, snd ?res + 1)"
    using Solve_Some(2) [OF assms(1)] assms(2) by (simp add: work_solve_def split_beta)
  then have r: "r = snd ?res + 1" by simp
  show "(\<forall>i < nat (maxIter gs).
            \<not> converges_at ?eqs (spec_invC ?eqs) (spec_b ?eqs h) ?t ?w0 i) \<longrightarrow>
         r = int (nat (maxIter gs)) + 1"
    using work_iterate_exhausted [of "nat (maxIter gs)" ?eqs "spec_invC ?eqs" "spec_b ?eqs h"
        ?t ?w0 0]
    by (simp add: r)
  show "j < nat (maxIter gs) \<and> converges_at ?eqs (spec_invC ?eqs) (spec_b ?eqs h) ?t ?w0 j \<and>
         (\<forall>i < j. \<not> converges_at ?eqs (spec_invC ?eqs) (spec_b ?eqs h) ?t ?w0 i) \<longrightarrow>
         r = int j + 1"
    using work_iterate_converged [of j "nat (maxIter gs)" ?eqs "spec_invC ?eqs"
        "spec_b ?eqs h" ?t ?w0 0]
    by (simp add: r)
qed

subsection \<open>The example solvers\<close>

lemma contact_in_range: "all_in_range (nat 2) (equations used_solver)"
  by (simp add: used_solver_def contact_solver_def NewGaussSeidel_def all_in_range_def
      in_range_def contact_eq_def world_body_def free_body_def)

lemma contact_nonempty: "equations used_solver \<noteq> []"
  by (simp add: used_solver_def contact_solver_def NewGaussSeidel_def)



lemma loop_solver_shape: "shape (nat 2) (length (equations used_solver)) loop_solver"
  by (simp add: shape_def loop_solver_def used_solver_def contact_solver_def
      NewGaussSeidel_def wf_slice_def)

lemma loop_solver_equations: "equations loop_solver = equations used_solver"
  by (simp add: loop_solver_def used_solver_def)

lemma used_solver_returns: "\<exists>r gs'. Solve used_solver 1 2 = Some (r, gs')"
  using Solve_total [OF contact_in_range, of 1] by auto




lemma Solve_no_iterations_any:
  assumes "maxIter gs \<le> 0" "equations gs \<noteq> []"
  shows "\<exists>gs'. Solve gs h nBodies = Some (1, gs') \<and>
           elems (solveLambda gs') = replicate (length (equations gs)) 0 \<and>
           map multiplier (equations gs') = replicate (length (equations gs)) (0 / h) \<and>
           elems (VelocityDeltas gs') = replicate (nat nBodies) zero3 \<and>
           elems (AngularVelocityDeltas gs') = replicate (nat nBodies) zero3"
proof -
  have "Solve gs h nBodies \<noteq> None" using assms(1) by (simp add: Solve_None_iff)
  then obtain r gs' where s: "Solve gs h nBodies = Some (r, gs')" by auto
  note S = Solve_Some [OF s]
  have w: "(work_of gs', r) = (work0 (length (equations gs)) nBodies, 1)"
    using S(2) assms by (simp add: work_solve_def)
  then have r: "r = 1" and w': "work_of gs' = work0 (length (equations gs)) nBodies"
    by simp_all
  have l: "lam (work_of gs') = replicate (length (equations gs)) 0"
    "vel (work_of gs') = replicate (nat nBodies) zero3"
    "ang (work_of gs') = replicate (nat nBodies) zero3"
    by (simp_all only: w' work0_simps)
  have "map multiplier (equations gs') = replicate (length (equations gs)) (0 / h)"
    using S(3) by (simp only: l) (simp add: SetMultiplier_def map_replicate_const
        map_zip_map2 o_def split_beta zip_replicate2 nth_equalityI)
  then show ?thesis using s r l by simp
qed

lemma f32_zero_div: "0 < h \<Longrightarrow> 0 / h = (0::f32)"
  by (cases h) (simp_all add: f32_arith)

section \<open>The claims\<close>

text \<open>
  Claim C1 says that \<^verbatim>\<open>Solve\<close> returns the number of iterations performed, capped at
  \<^verbatim>\<open>maxIterations\<close>: \<open>N\<close> for a system that never converges. The source adds one to
  \<^verbatim>\<open>iter\<close> whether the loop was left by \<^verbatim>\<open>break\<close> or ran out. On \<open>push_solver\<close>, where
  \<open>maxIter = 3\<close> and every one of the three iterations changes the impulse by 1, the
  call returns 4 with an impulse of 3.
\<close>

theorem Solve_returns_maxIter_plus_one:
  "maxIter push_solver = 3 \<and> returned (Solve push_solver 1 2) = Some 4 \<and>
   resolved_lambda (Solve push_solver 1 2) = Some [Finite 3]"
proof -
  have "returned (Solve push_solver 1 2) = Some 4"
    by code_simp
  moreover have "resolved_lambda (Solve push_solver 1 2) = Some [Finite 3]"
    by code_simp
  moreover have "maxIter push_solver = 3"
    by (simp add: push_solver_def)
  ultimately show ?thesis by simp
qed




text \<open>
  Claim C3. With an empty equation list, whatever the body count and whatever an earlier
  call left in the buffers, \<^verbatim>\<open>Solve\<close> returns 0 without a pass over the equations: no
  impulse is computed, there is no equation whose multiplier could be written, and
  each Solution array holds \<open>nBodies\<close> zero vectors (none when \<open>nBodies\<close> is not
  positive).
\<close>

theorem Solve_no_equations:
  assumes "equations gs = []"
  shows "\<exists>gs'. Solve gs h nBodies = Some (0, gs') \<and> equations gs' = [] \<and>
           elems (VelocityDeltas gs') = replicate (nat nBodies) zero3 \<and>
           elems (AngularVelocityDeltas gs') = replicate (nat nBodies) zero3 \<and>
           elems (solveLambda gs') = []"
proof -
  obtain gs' where S: "Solve gs h nBodies = Some (0, gs')" "equations gs' = []"
    "work_of gs' = work0 0 nBodies"
    using Solve_empty [OF assms, of h nBodies] by auto
  have "lam (work_of gs') = []" "vel (work_of gs') = replicate (nat nBodies) zero3"
    "ang (work_of gs') = replicate (nat nBodies) zero3"
    by (simp_all only: S(3) work0_simps replicate_0)
  then show ?thesis using S(1,2) by simp
qed

theorem Solve_no_equations_witness:
  "equations (used_solver\<lparr>equations := []\<rparr>) = [] \<and>
   (\<exists>gs'. Solve (used_solver\<lparr>equations := []\<rparr>) 1 2 = Some (0, gs') \<and> equations gs' = [] \<and>
      elems (VelocityDeltas gs') = replicate (nat 2) zero3 \<and>
      elems (AngularVelocityDeltas gs') = replicate (nat 2) zero3 \<and>
      elems (solveLambda gs') = [])"
  using Solve_no_equations [of "used_solver\<lparr>equations := []\<rparr>" 1 2] by simp

text \<open>
  Claim C4. When every body index is in range, \<^verbatim>\<open>Solve\<close> returns and its three sequences
  are those of the algorithm as the specification words it: \<open>work_solve\<close> iterates
  \<open>spec_pass\<close>, a fold over the equations in list order in which each equation reads
  the deltas its predecessors of the same iteration left, with
  \<open>deltaLambda = invC[j] * (b[j] - GWlambda - eps_j * lambda[j])\<close> and \<open>GWlambda\<close> the
  dot product of the two Jacobian rows with the deltas of the two bodies. The buffers
  hold \<open>invC[j] = 1 / C_j\<close> and \<open>b[j] = B_j(h)\<close>, computed once before the iterations,
  and one pass of the source's loop over the equations, from any state of the solver
  inside the loops, is \<open>spec_pass\<close> and leaves the two buffers as they are.
\<close>

theorem Solve_refines_spec:
  assumes "all_in_range (nat nBodies) (equations gs)"
  shows "(\<exists>r gs'. Solve gs h nBodies = Some (r, gs') \<and>
            work_of gs' =
              fst (work_solve (equations gs) (maxIter gs) (tolerance gs) h nBodies) \<and>
            elems (solveInvCs gs') = map (\<lambda>e. 1 / ComputeC e) (equations gs) \<and>
            elems (solveBs gs') = map (\<lambda>e. ComputeB e h) (equations gs)) \<and>
         (\<forall>g. shape (nat nBodies) (length (equations gs)) g \<and> equations g = equations gs \<longrightarrow>
            (\<exists>g' tot. equationLoop g 0 (int (length (equations gs))) 0 = Some (g', tot) \<and>
               (work_of g', tot) =
                 spec_pass (equations gs) (elems (solveInvCs g)) (elems (solveBs g))
                   (work_of g) \<and>
               solveInvCs g' = solveInvCs g \<and> solveBs g' = solveBs g))"
proof (intro conjI allI impI)
  obtain r gs' where s: "Solve gs h nBodies = Some (r, gs')"
    using Solve_total [OF assms, of h] by auto
  note S = Solve_Some [OF s]
  have "work_of gs' = fst (work_solve (equations gs) (maxIter gs) (tolerance gs) h nBodies)"
    using S(2) [symmetric] by simp
  then show "\<exists>r gs'. Solve gs h nBodies = Some (r, gs') \<and>
            work_of gs' =
              fst (work_solve (equations gs) (maxIter gs) (tolerance gs) h nBodies) \<and>
            elems (solveInvCs gs') = map (\<lambda>e. 1 / ComputeC e) (equations gs) \<and>
            elems (solveBs gs') = map (\<lambda>e. ComputeB e h) (equations gs)"
    using s S(6,7) by (auto simp: spec_invC_def spec_b_def)
next
  fix g
  assume a: "shape (nat nBodies) (length (equations gs)) g \<and> equations g = equations gs"
  then have sh: "shape (nat nBodies) (length (equations gs)) g"
    and e: "equations g = equations gs"
    by simp_all
  have "\<forall>k. nat 0 \<le> k \<and> k < length (equations gs) \<longrightarrow>
          in_range (nat nBodies) (equations g ! k)"
    using assms by (simp add: e all_in_range_nth)
  from equationLoop_total [OF sh _ this, of 0]
  obtain g' tot where l: "equationLoop g 0 (int (length (equations gs))) 0 = Some (g', tot)"
    by auto
  have L: "frame g g'"
    "(work_of g', tot) =
       fold (spec_update (equations g) (elems (solveInvCs g)) (elems (solveBs g)))
         [nat 0..<length (equations gs)] (work_of g, 0)"
    using equationLoop_Some [OF sh _ l] by simp_all
  have "(work_of g', tot) =
          spec_pass (equations gs) (elems (solveInvCs g)) (elems (solveBs g)) (work_of g)"
    using L(2) by (simp add: spec_pass_def e)
  then show "\<exists>g' tot. equationLoop g 0 (int (length (equations gs))) 0 = Some (g', tot) \<and>
               (work_of g', tot) =
                 spec_pass (equations gs) (elems (solveInvCs g)) (elems (solveBs g))
                   (work_of g) \<and>
               solveInvCs g' = solveInvCs g \<and> solveBs g' = solveBs g"
    using l L(1) by (auto simp: frame_def)
qed

theorem Solve_refines_spec_witness:
  "all_in_range (nat 2) (equations used_solver) \<and>
   (\<exists>r gs'. Solve used_solver 1 2 = Some (r, gs') \<and>
      work_of gs' =
        fst (work_solve (equations used_solver) (maxIter used_solver)
               (tolerance used_solver) 1 2) \<and>
      elems (solveInvCs gs') = map (\<lambda>e. 1 / ComputeC e) (equations used_solver) \<and>
      elems (solveBs gs') = map (\<lambda>e. ComputeB e 1) (equations used_solver)) \<and>
   shape (nat 2) (length (equations used_solver)) loop_solver \<and>
   equations loop_solver = equations used_solver \<and>
   (\<exists>g' tot. equationLoop loop_solver 0 (int (length (equations used_solver))) 0 =
        Some (g', tot) \<and>
      (work_of g', tot) =
        spec_pass (equations used_solver) (elems (solveInvCs loop_solver))
          (elems (solveBs loop_solver)) (work_of loop_solver))"
proof -
  note T = Solve_refines_spec [OF contact_in_range, of 1]
  show ?thesis
    using conjunct1 [OF T] conjunct2 [OF T, rule_format, of loop_solver]
      contact_in_range loop_solver_shape loop_solver_equations
    by blast
qed

text \<open>
  Claim C5. A call with at least one equation returns when every body index is in
  range, and whenever it returns, by convergence or after \<^verbatim>\<open>maxIter\<close> iterations, every
  equation \<open>j\<close> carries the multiplier \<open>lambda[j] / h\<close>, with \<open>lambda[j]\<close> the final
  impulse of the equation.
\<close>

theorem Solve_sets_multipliers:
  assumes "equations gs \<noteq> []"
  shows "(all_in_range (nat nBodies) (equations gs) \<longrightarrow> Solve gs h nBodies \<noteq> None) \<and>
         (\<forall>r gs'. Solve gs h nBodies = Some (r, gs') \<longrightarrow>
            length (equations gs') = length (equations gs) \<and>
            length (elems (solveLambda gs')) = length (equations gs) \<and>
            (\<forall>j < length (equations gs).
               multiplier (equations gs' ! j) = elems (solveLambda gs') ! j / h))"
proof (intro conjI allI impI)
  assume "all_in_range (nat nBodies) (equations gs)"
  then show "Solve gs h nBodies \<noteq> None" by (rule Solve_total)
next
  fix r gs' assume s: "Solve gs h nBodies = Some (r, gs')"
  note S = Solve_Some [OF s]
  have len: "length (elems (solveLambda gs')) = length (equations gs)"
    using S(1) by (simp add: shape_def)
  then show "length (elems (solveLambda gs')) = length (equations gs)" .
  show "length (equations gs') = length (equations gs)"
    using S(1) by (simp add: shape_def)
  fix j assume j: "j < length (equations gs)"
  show "multiplier (equations gs' ! j) = elems (solveLambda gs') ! j / h"
    using j len by (simp add: S(3) SetMultiplier_def)
qed

theorem Solve_sets_multipliers_witness:
  "equations used_solver \<noteq> [] \<and> all_in_range (nat 2) (equations used_solver) \<and>
   (\<exists>r gs'. Solve used_solver 1 2 = Some (r, gs') \<and>
      length (equations gs') = length (equations used_solver) \<and>
      (\<forall>j < length (equations used_solver).
         multiplier (equations gs' ! j) = elems (solveLambda gs') ! j / 1))"
proof -
  note T = Solve_sets_multipliers [OF contact_nonempty, of 2 1]
  from T contact_in_range obtain r gs' where s: "Solve used_solver 1 2 = Some (r, gs')"
    by auto
  with T show ?thesis using contact_nonempty contact_in_range by blast
qed





text \<open>
  Claim C8. Two solvers with the same equations, \<open>maxIter\<close> and tolerance, whatever their
  five slices hold (lengths and backing arrays), both panic or both return, with the
  same value, equations, Solution arrays and working buffers. Before the first
  iteration every impulse is 0, every delta the zero vector, and \<open>invC\<close> and \<open>b\<close> are
  those of the current equations.
\<close>

theorem Solve_reset_isolation:
  assumes "equations gs1 = equations gs2" "maxIter gs1 = maxIter gs2"
    "tolerance gs1 = tolerance gs2"
  shows "(Solve gs1 h nBodies = None \<longleftrightarrow> Solve gs2 h nBodies = None) \<and>
         (\<forall>r1 g1 r2 g2.
            Solve gs1 h nBodies = Some (r1, g1) \<and> Solve gs2 h nBodies = Some (r2, g2) \<longrightarrow>
            r1 = r2 \<and> equations g1 = equations g2 \<and>
            elems (VelocityDeltas g1) = elems (VelocityDeltas g2) \<and>
            elems (AngularVelocityDeltas g1) = elems (AngularVelocityDeltas g2) \<and>
            elems (solveInvCs g1) = elems (solveInvCs g2) \<and>
            elems (solveBs g1) = elems (solveBs g2) \<and>
            elems (solveLambda g1) = elems (solveLambda g2)) \<and>
         (\<exists>g. precompute (resetDeltas (Reset gs1) 0 nBodies) h 0
                 (int (length (equations gs1))) = Some g \<and>
              elems (solveLambda g) = replicate (length (equations gs1)) 0 \<and>
              elems (VelocityDeltas g) = replicate (nat nBodies) zero3 \<and>
              elems (AngularVelocityDeltas g) = replicate (nat nBodies) zero3 \<and>
              elems (solveInvCs g) = map (\<lambda>e. 1 / ComputeC e) (equations gs1) \<and>
              elems (solveBs g) = map (\<lambda>e. ComputeB e h) (equations gs1))"
proof (intro conjI allI impI)
  have c: "map coeffs (equations gs1) = map coeffs (equations gs2)"
    using assms(1) by simp
  show "Solve gs1 h nBodies = None \<longleftrightarrow> Solve gs2 h nBodies = None"
    by (rule Solve_inputs_only(1) [OF c assms(2,3)])
  show "\<exists>g. precompute (resetDeltas (Reset gs1) 0 nBodies) h 0
                 (int (length (equations gs1))) = Some g \<and>
              elems (solveLambda g) = replicate (length (equations gs1)) 0 \<and>
              elems (VelocityDeltas g) = replicate (nat nBodies) zero3 \<and>
              elems (AngularVelocityDeltas g) = replicate (nat nBodies) zero3 \<and>
              elems (solveInvCs g) = map (\<lambda>e. 1 / ComputeC e) (equations gs1) \<and>
              elems (solveBs g) = map (\<lambda>e. ComputeB e h) (equations gs1)"
  proof -
    obtain g where G: "precompute (resetDeltas (Reset gs1) 0 nBodies) h 0
                 (int (length (equations gs1))) = Some g"
      "elems (solveInvCs g) = spec_invC (equations gs1)"
      "elems (solveBs g) = spec_b (equations gs1) h"
      "work_of g = work0 (length (equations gs1)) nBodies"
      using Solve_start [of gs1 nBodies h] by auto
    have "lam (work_of g) = replicate (length (equations gs1)) 0"
      "vel (work_of g) = replicate (nat nBodies) zero3"
      "ang (work_of g) = replicate (nat nBodies) zero3"
      by (simp_all only: G(4) work0_simps)
    then show ?thesis using G(1-3) by (simp add: spec_invC_def spec_b_def)
  qed
  fix r1 g1 r2 g2
  assume "Solve gs1 h nBodies = Some (r1, g1) \<and> Solve gs2 h nBodies = Some (r2, g2)"
  then have R: "r1 = r2 \<and> work_of g1 = work_of g2 \<and> equations g1 = equations g2 \<and>
       elems (solveInvCs g1) = elems (solveInvCs g2) \<and>
       elems (solveBs g1) = elems (solveBs g2)"
    using Solve_inputs_only(2) [OF c assms(2,3)] by blast
  then have "elems (solveLambda g1) = elems (solveLambda g2) \<and>
     elems (VelocityDeltas g1) = elems (VelocityDeltas g2) \<and>
     elems (AngularVelocityDeltas g1) = elems (AngularVelocityDeltas g2)"
    using work_of_eqD by blast
  then show "r1 = r2" "equations g1 = equations g2"
    "elems (VelocityDeltas g1) = elems (VelocityDeltas g2)"
    "elems (AngularVelocityDeltas g1) = elems (AngularVelocityDeltas g2)"
    "elems (solveInvCs g1) = elems (solveInvCs g2)"
    "elems (solveBs g1) = elems (solveBs g2)"
    "elems (solveLambda g1) = elems (solveLambda g2)"
    using R by simp_all
qed

theorem Solve_reset_isolation_witness:
  "equations used_solver = equations contact_solver \<and>
   maxIter used_solver = maxIter contact_solver \<and>
   tolerance used_solver = tolerance contact_solver \<and>
   VelocityDeltas used_solver \<noteq> VelocityDeltas contact_solver \<and>
   solveLambda used_solver \<noteq> solveLambda contact_solver \<and>
   (\<exists>r1 g1 r2 g2.
      Solve used_solver 1 2 = Some (r1, g1) \<and> Solve contact_solver 1 2 = Some (r2, g2) \<and>
      r1 = r2 \<and> equations g1 = equations g2 \<and>
      elems (VelocityDeltas g1) = elems (VelocityDeltas g2) \<and>
      elems (AngularVelocityDeltas g1) = elems (AngularVelocityDeltas g2) \<and>
      elems (solveInvCs g1) = elems (solveInvCs g2) \<and>
      elems (solveBs g1) = elems (solveBs g2) \<and>
      elems (solveLambda g1) = elems (solveLambda g2))"
proof -
  have h: "equations used_solver = equations contact_solver"
    "maxIter used_solver = maxIter contact_solver"
    "tolerance used_solver = tolerance contact_solver"
    by (simp_all add: used_solver_def)
  have d: "VelocityDeltas used_solver \<noteq> VelocityDeltas contact_solver"
    "solveLambda used_solver \<noteq> solveLambda contact_solver"
    by (simp_all add: used_solver_def contact_solver_def NewGaussSeidel_def empty_slice_def)
  note T = Solve_reset_isolation [OF h, of 1 2]
  obtain r1 g1 where s1: "Solve used_solver 1 2 = Some (r1, g1)"
    using used_solver_returns by blast
  have "Solve contact_solver 1 2 \<noteq> None" using T s1 by auto
  then obtain r2 g2 where s2: "Solve contact_solver 1 2 = Some (r2, g2)" by auto
  have "r1 = r2 \<and> equations g1 = equations g2 \<and>
      elems (VelocityDeltas g1) = elems (VelocityDeltas g2) \<and>
      elems (AngularVelocityDeltas g1) = elems (AngularVelocityDeltas g2) \<and>
      elems (solveInvCs g1) = elems (solveInvCs g2) \<and>
      elems (solveBs g1) = elems (solveBs g2) \<and>
      elems (solveLambda g1) = elems (solveLambda g2)"
    using conjunct1 [OF conjunct2 [OF T]] s1 s2 by blast
  then show ?thesis using h d s1 s2 by blast
qed

text \<open>
  Claim C9. \<^verbatim>\<open>Solve\<close> returns when every body index is in range, and whenever it returns
  the equations are, in order, those of the call in everything but the multiplier:
  bodies (index, inverse mass, inverse inertia), \<open>C\<close>, \<open>B\<close>, \<open>eps\<close>, \<open>minForce\<close>,
  \<open>maxForce\<close> and Jacobians; \<open>maxIter\<close> and the tolerance are unchanged too.
\<close>

theorem Solve_frame:
  "(all_in_range (nat nBodies) (equations gs) \<longrightarrow> Solve gs h nBodies \<noteq> None) \<and>
   (\<forall>r gs'. Solve gs h nBodies = Some (r, gs') \<longrightarrow>
      map coeffs (equations gs') = map coeffs (equations gs) \<and>
      maxIter gs' = maxIter gs \<and> tolerance gs' = tolerance gs)"
proof (intro conjI allI impI)
  assume "all_in_range (nat nBodies) (equations gs)"
  then show "Solve gs h nBodies \<noteq> None" by (rule Solve_total)
next
  fix r gs' assume s: "Solve gs h nBodies = Some (r, gs')"
  note S = Solve_Some [OF s]
  show "maxIter gs' = maxIter gs" "tolerance gs' = tolerance gs"
    using S(4,5) by simp_all
  have len: "length (elems (solveLambda gs')) = length (equations gs)"
    using S(1) by (simp add: shape_def)
  show "map coeffs (equations gs') = map coeffs (equations gs)"
    using len by (intro nth_equalityI) (simp_all add: S(3))
qed

theorem Solve_frame_witness:
  "all_in_range (nat 2) (equations used_solver) \<and>
   (\<exists>r gs'. Solve used_solver 1 2 = Some (r, gs') \<and>
      map coeffs (equations gs') = map coeffs (equations used_solver) \<and>
      maxIter gs' = maxIter used_solver \<and> tolerance gs' = tolerance used_solver)"
proof -
  note T = Solve_frame [of 2 used_solver 1]
  from T contact_in_range obtain r gs' where s: "Solve used_solver 1 2 = Some (r, gs')"
    by auto
  with T show ?thesis using contact_in_range by blast
qed

text \<open>
  Claim C10. When \<open>maxIter\<close> is zero or negative and there is at least one equation,
  \<^verbatim>\<open>Solve\<close> returns 1 although no pass over the equations runs (nor can it panic on a
  body index): every impulse is still 0, every multiplier is set to \<open>0 / h\<close>, and both
  Solution arrays hold \<open>nBodies\<close> zero vectors. This holds whatever the arithmetic; in
  the model of the IEEE values \<open>0 / h\<close> is 0 for a positive timestep.
\<close>

theorem Solve_no_iterations:
  fixes gs :: "('f::{zero,one,plus,minus,times,inverse,abs,ord}) GaussSeidel"
    and gf :: "f32 GaussSeidel"
  shows "(maxIter gs \<le> 0 \<and> equations gs \<noteq> [] \<longrightarrow>
            (\<exists>gs'. Solve gs h nBodies = Some (1, gs') \<and>
               elems (solveLambda gs') = replicate (length (equations gs)) 0 \<and>
               map multiplier (equations gs') = replicate (length (equations gs)) (0 / h) \<and>
               elems (VelocityDeltas gs') = replicate (nat nBodies) zero3 \<and>
               elems (AngularVelocityDeltas gs') = replicate (nat nBodies) zero3)) \<and>
         (maxIter gf \<le> 0 \<and> equations gf \<noteq> [] \<and> 0 < hf \<longrightarrow>
            (\<exists>gf'. Solve gf hf nBodies = Some (1, gf') \<and>
               map multiplier (equations gf') = replicate (length (equations gf)) 0))"
proof (intro conjI impI)
  assume "maxIter gs \<le> 0 \<and> equations gs \<noteq> []"
  then show "\<exists>gs'. Solve gs h nBodies = Some (1, gs') \<and>
               elems (solveLambda gs') = replicate (length (equations gs)) 0 \<and>
               map multiplier (equations gs') = replicate (length (equations gs)) (0 / h) \<and>
               elems (VelocityDeltas gs') = replicate (nat nBodies) zero3 \<and>
               elems (AngularVelocityDeltas gs') = replicate (nat nBodies) zero3"
    using Solve_no_iterations_any [of gs h nBodies] by simp
next
  assume a: "maxIter gf \<le> 0 \<and> equations gf \<noteq> [] \<and> 0 < hf"
  then obtain gf' where "Solve gf hf nBodies = Some (1, gf')"
    "map multiplier (equations gf') = replicate (length (equations gf)) (0 / hf)"
    using Solve_no_iterations_any [of gf hf nBodies] by auto
  then show "\<exists>gf'. Solve gf hf nBodies = Some (1, gf') \<and>
               map multiplier (equations gf') = replicate (length (equations gf)) 0"
    using a f32_zero_div [of hf] by auto
qed

theorem Solve_no_iterations_witness:
  "maxIter (used_solver\<lparr>maxIter := 0\<rparr>) \<le> 0 \<and> equations (used_solver\<lparr>maxIter := 0\<rparr>) \<noteq> [] \<and>
   (0::f32) < 1 \<and>
   (\<exists>gs'. Solve (used_solver\<lparr>maxIter := 0\<rparr>) 1 2 = Some (1, gs') \<and>
      elems (solveLambda gs') = [0] \<and> map multiplier (equations gs') = [0] \<and>
      elems (VelocityDeltas gs') = [zero3, zero3] \<and>
      elems (AngularVelocityDeltas gs') = [zero3, zero3])"
proof -
  let ?g = "used_solver\<lparr>maxIter := 0\<rparr>"
  have h: "maxIter ?g \<le> 0 \<and> equations ?g \<noteq> [] \<and> (0::f32) < 1"
    by (simp add: used_solver_def contact_solver_def NewGaussSeidel_def f32_arith)
  have one: "(0::f32) / 1 = 0"
    by (simp add: f32_arith)
  have len: "length (equations used_solver) = 1"
    by (simp add: used_solver_def contact_solver_def NewGaussSeidel_def)
  from Solve_no_iterations [of ?g 1 2 ?g 1] h
  obtain gs' where "Solve ?g 1 2 = Some (1, gs')"
    "elems (solveLambda gs') = replicate (length (equations ?g)) 0"
    "map multiplier (equations gs') = replicate (length (equations ?g)) (0 / 1)"
    "elems (VelocityDeltas gs') = replicate (nat 2) zero3"
    "elems (AngularVelocityDeltas gs') = replicate (nat 2) zero3"
    by blast
  then show ?thesis
    using h by (simp add: len one numeral_2_eq_2)
qed

end
